theory Spec2Isabelle
  imports Complex_Main "HOL-Library.Word" "HOL-Library.Sublist" "HOL-Library.Multiset"
begin

section \<open>JavaScript strings\<close>

text \<open>
  A JavaScript string is a sequence of 16-bit UTF-16 code units: \<open>str.length\<close> counts
  code units, \<open>includes\<close>, \<open>startsWith\<close> and \<open>===\<close> compare code units. The string
  literals of the source are ASCII and are written \<open>ascii ''...''\<close>.
\<close>

type_synonym jsstring = "16 word list"

definition ascii :: "string \<Rightarrow> jsstring" where
  "ascii s = map (\<lambda>c. of_char c) s"

definition is_high_surrogate :: "16 word \<Rightarrow> bool" where
  "is_high_surrogate c = (0xD800 \<le> c \<and> c \<le> 0xDBFF)"

definition is_low_surrogate :: "16 word \<Rightarrow> bool" where
  "is_low_surrogate c = (0xDC00 \<le> c \<and> c \<le> 0xDFFF)"

text \<open>
  \<open>for (const char of str)\<close> runs the string iterator, which yields code points: a high
  surrogate followed by a low surrogate is one element (a string of two code units),
  every other code unit is an element of its own.
\<close>

fun code_points :: "jsstring \<Rightarrow> jsstring list" where
  "code_points [] = []"
| "code_points [c] = [[c]]"
| "code_points (c # d # cs) =
     (if is_high_surrogate c \<and> is_low_surrogate d then [c, d] # code_points cs
      else [c] # code_points (d # cs))"

text \<open>\<open>s.includes(sub)\<close>: \<open>sub\<close> occurs in \<open>s\<close> as a contiguous run.\<close>

fun str_includes :: "'a list \<Rightarrow> 'a list \<Rightarrow> bool" where
  "str_includes [] sub = (sub = [])"
| "str_includes (x # xs) sub = (prefix sub (x # xs) \<or> str_includes xs sub)"

section \<open>JavaScript numbers\<close>

text \<open>
  A JavaScript number is an IEEE 754 double. \<open>fl x\<close> is the double nearest to the real
  \<open>x\<close>: \<open>x\<close> is scaled by the power of two that brings it into \<open>[2^52, 2^53)\<close>, rounded
  to an integer with ties to the even one (\<open>rne\<close>), and scaled back. The exponent is not
  bounded: the threat scorer, the one function modelled with this arithmetic, produces no
  subnormal number, and where a product overflows to \<open>Infinity\<close> in the code,
  \<open>Math.min\<close> replaces it by the cap, as it does here with the large finite value.
\<close>

definition rne :: "real \<Rightarrow> int" where
  "rne x =
     (let f = \<lfloor>x\<rfloor> in
      if x - of_int f < 1 / 2 then f
      else if x - of_int f > 1 / 2 then f + 1
      else if even f then f else f + 1)"

definition fl :: "real \<Rightarrow> real" where
  "fl x =
     (if x = 0 then 0
      else let u = 2 powi (\<lfloor>log 2 \<bar>x\<bar>\<rfloor> - 52) in of_int (rne (x / u)) * u)"

text \<open>
  \<open>parseFloat(x.toFixed(d))\<close>: the nearest multiple of \<open>10^-d\<close>, the larger one on a
  tie, computed on the absolute value and the sign put back. Outside the threat scorer
  numbers are modelled as mathematical reals.
\<close>

definition toFixed :: "nat \<Rightarrow> real \<Rightarrow> real" where
  "toFixed d x =
     (if x < 0 then - (of_int \<lfloor>- x * 10 ^ d + 1 / 2\<rfloor> / 10 ^ d)
      else of_int \<lfloor>x * 10 ^ d + 1 / 2\<rfloor> / 10 ^ d)"

section \<open>Entropy Calculator\<close>

text \<open>\<open>freq[char] = (freq[char] || 0) + 1\<close> on an object whose keys keep insertion order.\<close>

fun bump :: "(jsstring \<times> nat) list \<Rightarrow> jsstring \<Rightarrow> (jsstring \<times> nat) list" where
  "bump [] c = [(c, 1)]"
| "bump ((k, n) # kvs) c = (if k = c then (k, n + 1) # kvs else (k, n) # bump kvs c)"

definition char_freq :: "jsstring \<Rightarrow> (jsstring \<times> nat) list" where
  "char_freq str = foldl bump [] (code_points str)"

text \<open>
  \<open>for (const char in freq)\<close> visits integer-like keys first, in ascending order, then the
  other keys in insertion order. Among keys that are single code points the integer-like
  ones are the digits \<open>0\<close> to \<open>9\<close>.
\<close>

definition is_index_key :: "jsstring \<Rightarrow> bool" where
  "is_index_key k = (case k of [d] \<Rightarrow> 0x30 \<le> d \<and> d \<le> 0x39 | _ \<Rightarrow> False)"

definition for_in :: "(jsstring \<times> nat) list \<Rightarrow> (jsstring \<times> nat) list" where
  "for_in kvs =
     sort_key (\<lambda>kv. hd (fst kv)) (filter (\<lambda>kv. is_index_key (fst kv)) kvs)
     @ filter (\<lambda>kv. \<not> is_index_key (fst kv)) kvs"

definition entropy_step :: "nat \<Rightarrow> real \<Rightarrow> jsstring \<times> nat \<Rightarrow> real" where
  "entropy_step len e kv = (let p = real (snd kv) / real len in e - p * log 2 p)"

definition calculateEntropy :: "jsstring \<Rightarrow> real" where
  "calculateEntropy str =
     (let len = length str in
      if len = 0 then 0
      else toFixed 3 (foldl (entropy_step len) 0 (for_in (char_freq str))))"

text \<open>
  A string in which no high surrogate is followed by a low surrogate, so that its code
  points are its code units.
\<close>

fun pair_free :: "jsstring \<Rightarrow> bool" where
  "pair_free [] = True"
| "pair_free [c] = True"
| "pair_free (c # d # cs) =
     (\<not> (is_high_surrogate c \<and> is_low_surrogate d) \<and> pair_free (d # cs))"

section \<open>Reputation Checker\<close>

datatype reputation = CLEAN | SUSPICIOUS | MALICIOUS | UNKNOWN

definition maliciousIps :: "jsstring list" where
  "maliciousIps = [ascii ''192.168.1.105'', ascii ''45.33.22.11'', ascii ''103.22.11.55'',
                   ascii ''185.22.11.33'']"

definition suspiciousIps :: "jsstring list" where
  "suspiciousIps = [ascii ''192.168.1.200'', ascii ''104.16.132.229'']"

definition checkIpReputation :: "jsstring \<Rightarrow> reputation" where
  "checkIpReputation ip =
     (if ip \<in> set maliciousIps then MALICIOUS
      else if ip \<in> set suspiciousIps then SUSPICIOUS
      else if prefix (ascii ''192.168.'') ip then CLEAN
      else UNKNOWN)"

section \<open>Values and records\<close>

text \<open>
  The values a loosely typed field can hold: \<open>undefined\<close>, \<open>null\<close>, a boolean, a number or
  a string. Fields that hold nested arrays or objects are outside this model.
\<close>

datatype jsval = JUndefined | JNull | JBool bool | JNum real | JStr jsstring

text \<open>
  An object with scalar fields, as the list of its own properties in enumeration order;
  a property is read with \<open>map_of\<close>.
\<close>

type_synonym fieldmap = "(jsstring \<times> jsval) list"

text \<open>
  The values handed to the normaliser (\<open>data: any\<close>): a scalar, an object with scalar
  fields, or an array of such values.
\<close>

datatype json = Scalar jsval | Object fieldmap | Array "json list"

datatype label = Normal | Tunneling

text \<open>
  The interface \<open>DNSQuery\<close> of \<open>types.ts\<close>. An optional property is an \<open>option\<close>. The
  properties \<open>id\<close>, \<open>timestamp\<close> and \<open>responseCode\<close> are declared as strings, but the
  normaliser stores whatever truthy value the input carries, so they are \<open>jsval\<close>
  (\<open>JUndefined\<close> for an absent \<open>responseCode\<close>).
\<close>

record DNSQuery =
  id_f :: jsval
  timestamp :: jsval
  sourceIp :: jsstring
  query :: jsstring
  type_f :: jsstring
  responseCode :: jsval
  length_f :: real
  entropy :: real
  location :: "jsstring option"
  lat :: "real option"
  lng :: "real option"
  label_f :: "label option"
  confidence :: "real option"
  threatScore :: real
  reputation_f :: "reputation option"
  isNew :: "bool option"
  metadata :: "(jsstring \<times> json) list option"

record FeatureStats =
  avgEntropy :: real
  avgLength :: real
  nxDomainRatio :: real
  totalQueries :: nat
  uniqueSubdomains :: nat

section \<open>Stats Aggregator\<close>

text \<open>\<open>s.split(sep)\<close> for a separator of one code unit; the result is never empty.\<close>

fun split_on :: "'a \<Rightarrow> 'a list \<Rightarrow> 'a list list" where
  "split_on sep [] = [[]]"
| "split_on sep (c # cs) =
     (if c = sep then [] # split_on sep cs
      else (case split_on sep cs of
              [] \<Rightarrow> [[c]]
            | p # ps \<Rightarrow> (c # p) # ps))"

definition getStats :: "DNSQuery list \<Rightarrow> FeatureStats" where
  "getStats logs =
     (if length logs = 0 then
        \<lparr>avgEntropy = 0, avgLength = 0, nxDomainRatio = 0, totalQueries = 0,
         uniqueSubdomains = 0\<rparr>
      else
        let totalQueries = length logs;
            avgEntropy = foldl (\<lambda>acc curr. acc + entropy curr) 0 logs / real totalQueries;
            avgLength = foldl (\<lambda>acc curr. acc + length_f curr) 0 logs / real totalQueries;
            subdomains = set (map (\<lambda>l. hd (split_on 0x2E (query l))) logs)
        in \<lparr>avgEntropy = toFixed 3 avgEntropy,
            avgLength = toFixed 1 avgLength,
            nxDomainRatio = 12 / 100,
            totalQueries = totalQueries,
            uniqueSubdomains = card subdomains\<rparr>)"

text \<open>
  The ratio as the specification words it: the number of records whose response code
  equals NXDOMAIN, divided by the number of records.
\<close>

definition nxdomain_proportion :: "DNSQuery list \<Rightarrow> real" where
  "nxdomain_proportion logs =
     real (length (filter (\<lambda>l. responseCode l = JStr (ascii ''NXDOMAIN'')) logs))
     / real (length logs)"

section \<open>Threat Scorer\<close>

definition highRiskLocations :: "jsstring list" where
  "highRiskLocations =
     [ascii ''Russia'', ascii ''China'', ascii ''North Korea'', ascii ''Iran'',
      ascii ''Unknown'']"

text \<open>
  \<open>query.location\<close> is truthy when it is present and not the empty string;
  \<open>!query.location\<close> holds when it is absent or the empty string.
\<close>

definition location_truthy :: "jsstring option \<Rightarrow> bool" where
  "location_truthy l = (case l of None \<Rightarrow> False | Some s \<Rightarrow> s \<noteq> [])"

definition location_includes :: "jsstring option \<Rightarrow> jsstring \<Rightarrow> bool" where
  "location_includes l loc = (case l of None \<Rightarrow> False | Some s \<Rightarrow> str_includes s loc)"

text \<open>\<open>Math.round\<close>: the nearest integer, the larger one on a tie.\<close>

definition Math_round :: "real \<Rightarrow> real" where
  "Math_round x = of_int \<lfloor>x + 1 / 2\<rfloor>"

text \<open>
  \<open>calculateThreatScore\<close>, in the arithmetic of the code: every subtraction,
  multiplication and addition is rounded to a double; \<open>Math.min\<close>, \<open>Math.round\<close> and the
  comparisons are exact, and so are the constants. The record's \<open>entropy\<close> and \<open>length\<close>
  are doubles in the code; the model keeps them as reals and reads them through \<open>fl\<close>,
  which leaves a double unchanged and reads a decimal such as 3.55 as the double that
  literal denotes.
\<close>

definition calculateThreatScore :: "DNSQuery \<Rightarrow> real" where
  "calculateThreatScore q =
     (let entropy = fl (entropy q);
          length = fl (length_f q);
          score = 0;
          score = (if entropy > 35 / 10
                   then fl (score + min 40 (fl (fl (entropy - 35 / 10) * 30))) else score);
          score = (if length > 40
                   then fl (score + min 20 (fl (fl (length - 40) * (5 / 10)))) else score);
          score = (if responseCode q = JStr (ascii ''NXDOMAIN'') then fl (score + 15)
                   else if responseCode q = JStr (ascii ''SERVFAIL'') then fl (score + 10)
                   else score);
          score = (if type_f q = ascii ''TXT'' then fl (score + 10)
                   else if type_f q = ascii ''NULL'' then fl (score + 15)
                   else score);
          score = (if location_truthy (location q)
                      \<and> list_ex (\<lambda>loc. location_includes (location q) loc) highRiskLocations
                   then fl (score + 15)
                   else if \<not> location_truthy (location q)
                           \<or> location q = Some (ascii ''Resolving...'')
                   then fl (score + 5)
                   else score);
          score = (if reputation_f q = Some MALICIOUS then fl (score + 25)
                   else if reputation_f q = Some SUSPICIOUS then fl (score + 15)
                   else score)
      in min 100 (Math_round score))"

text \<open>
  The six factors as the specification words them. The entropy and the length factor
  come twice: over the reals, as the formula reads, and in double arithmetic.
\<close>

definition entropy_factor_spec :: "real \<Rightarrow> real" where
  "entropy_factor_spec e = (if e \<le> 35 / 10 then 0 else min 40 ((e - 35 / 10) * 30))"

definition length_factor_spec :: "real \<Rightarrow> real" where
  "length_factor_spec n = (if n \<le> 40 then 0 else min 20 ((n - 40) * (5 / 10)))"

definition entropy_factor :: "real \<Rightarrow> real" where
  "entropy_factor e = (if e \<le> 35 / 10 then 0 else min 40 (fl (fl (e - 35 / 10) * 30)))"

definition length_factor :: "real \<Rightarrow> real" where
  "length_factor n = (if n \<le> 40 then 0 else min 20 (fl (fl (n - 40) * (5 / 10))))"

definition response_code_factor :: "jsval \<Rightarrow> real" where
  "response_code_factor rc =
     (if rc = JStr (ascii ''NXDOMAIN'') then 15
      else if rc = JStr (ascii ''SERVFAIL'') then 10 else 0)"

definition query_type_factor :: "jsstring \<Rightarrow> real" where
  "query_type_factor t =
     (if t = ascii ''TXT'' then 10 else if t = ascii ''NULL'' then 15 else 0)"

definition contains_high_risk :: "jsstring \<Rightarrow> bool" where
  "contains_high_risk s =
     (str_includes s (ascii ''Russia'') \<or> str_includes s (ascii ''China'')
      \<or> str_includes s (ascii ''North Korea'') \<or> str_includes s (ascii ''Iran'')
      \<or> str_includes s (ascii ''Unknown''))"

text \<open>
  Factor 5 as the specification words it: 15 when the location string contains a
  high-risk name, 5 when the location is absent or is the sentinel, else 0.
\<close>

definition geolocation_factor_spec :: "jsstring option \<Rightarrow> real" where
  "geolocation_factor_spec l =
     (case l of
        None \<Rightarrow> 5
      | Some s \<Rightarrow> if contains_high_risk s then 15
                  else if s = ascii ''Resolving...'' then 5 else 0)"

text \<open>Factor 5 with the empty location string counted as an absent location.\<close>

definition geolocation_factor :: "jsstring option \<Rightarrow> real" where
  "geolocation_factor l =
     (case l of
        None \<Rightarrow> 5
      | Some s \<Rightarrow> if s = [] then 5
                  else if contains_high_risk s then 15
                  else if s = ascii ''Resolving...'' then 5 else 0)"

definition reputation_factor :: "reputation option \<Rightarrow> real" where
  "reputation_factor r =
     (if r = Some MALICIOUS then 25 else if r = Some SUSPICIOUS then 15 else 0)"

text \<open>The claim as stated: the sum of the six factors, rounded and clamped.\<close>

definition threat_score_spec :: "DNSQuery \<Rightarrow> real" where
  "threat_score_spec q =
     min 100 (Math_round
       (entropy_factor_spec (entropy q) + length_factor_spec (length_f q)
        + response_code_factor (responseCode q) + query_type_factor (type_f q)
        + geolocation_factor_spec (location q) + reputation_factor (reputation_f q)))"

text \<open>The factors added from left to right, each partial sum rounded to a double.\<close>

definition double_sum :: "real list \<Rightarrow> real" where
  "double_sum fs = foldl (\<lambda>s f. fl (s + f)) 0 fs"

definition threat_score_factors :: "DNSQuery \<Rightarrow> real" where
  "threat_score_factors q =
     min 100 (Math_round
       (double_sum
          [entropy_factor (fl (entropy q)), length_factor (fl (length_f q)),
           response_code_factor (responseCode q), query_type_factor (type_f q),
           geolocation_factor (location q), reputation_factor (reputation_f q)]))"

section \<open>Classifier\<close>

text \<open>
  \<open>Partial<DNSQuery>\<close>, with the four properties \<open>classifyQuery\<close> reads; \<open>None\<close> is an
  absent property.
\<close>

record PartialDNSQuery =
  p_query :: "jsstring option"
  p_length :: "real option"
  p_entropy :: "real option"
  p_threatScore :: "real option"

text \<open>
  The argument \<open>rnd\<close> is the value \<open>Math.random()\<close> returns in the branch taken, a number
  in \<open>[0, 1)\<close>. The result is the pair of \<open>label\<close> and \<open>confidence\<close>.
\<close>

definition classifyQuery :: "real \<Rightarrow> PartialDNSQuery \<Rightarrow> label \<times> real" where
  "classifyQuery rnd q =
     (let entropy = (case p_entropy q of
                       Some e \<Rightarrow> e
                     | None \<Rightarrow> calculateEntropy (case p_query q of Some s \<Rightarrow> s | None \<Rightarrow> []));
          length = (case p_length q of
                      Some n \<Rightarrow> n
                    | None \<Rightarrow> (case p_query q of Some s \<Rightarrow> real (length s) | None \<Rightarrow> 0));
          entropyThreshold = 42 / 10;
          lengthThreshold = 55;
          isSuspicious = (entropy > entropyThreshold \<or> length > lengthThreshold);
          score = (case p_threatScore q of Some s \<Rightarrow> s | None \<Rightarrow> 0);
          label = (if isSuspicious \<or> score > 60 then Tunneling else Normal);
          confidence = (if label = Tunneling
                        then min (99 / 100) (7 / 10 + score / 200 + rnd * (1 / 10))
                        else min (99 / 100) (8 / 10 + rnd * (15 / 100)))
      in (label, confidence))"

section \<open>Log Normalizer\<close>

datatype error = TypeError

text \<open>
  What the JavaScript runtime supplies and this repository does not define: the built-ins
  \<open>JSON.parse\<close> (\<open>None\<close> when it throws), \<open>toUpperCase\<close> and \<open>toLowerCase\<close>, and the
  values that differ from call to call, indexed by the position of the item or line being
  normalised: \<open>Math.random().toString(36).substr(2, 9)\<close>, \<open>new Date().toISOString()\<close>
  and the \<open>Math.random()\<close> of the classifier.
\<close>

record runtime =
  JSON_parse :: "jsstring \<Rightarrow> json option"
  toUpperCase :: "jsstring \<Rightarrow> jsstring"
  toLowerCase :: "jsstring \<Rightarrow> jsstring"
  random_id :: "nat \<Rightarrow> jsstring"
  date_now :: "nat \<Rightarrow> jsstring"
  Math_random :: "nat \<Rightarrow> real"

fun truthy :: "jsval \<Rightarrow> bool" where
  "truthy JUndefined = False"
| "truthy JNull = False"
| "truthy (JBool b) = b"
| "truthy (JNum x) = (x \<noteq> 0)"
| "truthy (JStr s) = (s \<noteq> [])"

text \<open>\<open>a || b\<close>\<close>

definition js_or :: "jsval \<Rightarrow> jsval \<Rightarrow> jsval" where
  "js_or a b = (if truthy a then a else b)"

text \<open>
  \<open>data.k\<close> for the property names the normaliser reads, on a value that is neither
  \<open>null\<close> nor \<open>undefined\<close>: an object gives its own property, and no primitive or array
  has a property of one of these names.
\<close>

definition get_prop :: "json \<Rightarrow> string \<Rightarrow> jsval" where
  "get_prop data k =
     (case data of
        Object m \<Rightarrow> (case map_of m (ascii k) of Some v \<Rightarrow> v | None \<Rightarrow> JUndefined)
      | _ \<Rightarrow> JUndefined)"

text \<open>The decimal numeral of an array index.\<close>

fun decimal :: "nat \<Rightarrow> jsstring" where
  "decimal n =
     (if n < 10 then [of_nat (48 + n)]
      else decimal (n div 10) @ [of_nat (48 + n mod 10)])"

declare decimal.simps [simp del]

text \<open>
  \<open>Object.keys(data)\<close> paired with \<open>data[key]\<close>: the fields of an object, the code units
  of a string and the elements of an array under their indices, nothing for the other
  primitives.
\<close>

definition own_properties :: "json \<Rightarrow> (jsstring \<times> json) list" where
  "own_properties data =
     (case data of
        Object m \<Rightarrow> map (\<lambda>k. (k, Scalar (the (map_of m k)))) (remdups (map fst m))
      | Scalar (JStr s) \<Rightarrow> zip (map decimal [0..<length s]) (map (\<lambda>c. Scalar (JStr [c])) s)
      | Array xs \<Rightarrow> zip (map decimal [0..<length xs]) xs
      | Scalar _ \<Rightarrow> [])"

text \<open>
  \<open>obj[key] = value\<close> on an object created by \<open>{}\<close>: assigning to \<open>__proto__\<close> runs the
  inherited setter and adds no own property (the values assigned here are never
  functions); any other key is updated in place or appended.
\<close>

fun js_assign :: "(jsstring \<times> 'v) list \<Rightarrow> jsstring \<Rightarrow> 'v \<Rightarrow> (jsstring \<times> 'v) list" where
  "js_assign [] k v = [(k, v)]"
| "js_assign ((k', v') # kvs) k v =
     (if k' = k then (k, v) # kvs else (k', v') # js_assign kvs k v)"

definition set_property :: "(jsstring \<times> 'v) list \<Rightarrow> jsstring \<Rightarrow> 'v \<Rightarrow> (jsstring \<times> 'v) list" where
  "set_property obj k v = (if k = ascii ''__proto__'' then obj else js_assign obj k v)"

definition coreFields :: "jsstring list" where
  "coreFields =
     [ascii ''id'', ascii ''timestamp'', ascii ''time'', ascii ''sourceIp'', ascii ''src_ip'',
      ascii ''client_ip'', ascii ''query'', ascii ''domain'', ascii ''qname'', ascii ''type'',
      ascii ''qtype'', ascii ''responseCode'', ascii ''rcode'']"

definition extract_metadata :: "json \<Rightarrow> (jsstring \<times> json) list" where
  "extract_metadata data =
     foldl (\<lambda>metadata (key, val).
              if key \<notin> set coreFields then set_property metadata key val else metadata)
       [] (own_properties data)"

text \<open>
  A value names a query when one of the four query aliases is truthy in it:
  \<open>data.query || data.domain || data.qname || data.Question\<close> is then not the default.
\<close>

definition names_query :: "json \<Rightarrow> bool" where
  "names_query data =
     (truthy (get_prop data ''query'') \<or> truthy (get_prop data ''domain'')
      \<or> truthy (get_prop data ''qname'') \<or> truthy (get_prop data ''Question''))"

text \<open>
  \<open>normalizeDNSQuery\<close>. It throws a \<open>TypeError\<close> when \<open>data\<close> is \<open>null\<close> or
  \<open>undefined\<close> (a property of it is read), when the resolved query is a truthy number or
  boolean (\<open>for ... of\<close> over a value that is not iterable), when the resolved type is not
  a string (it has no \<open>toUpperCase\<close>) and when the resolved source address is not a string
  (it has no \<open>startsWith\<close>).
\<close>

definition normalizeDNSQuery :: "runtime \<Rightarrow> nat \<Rightarrow> json \<Rightarrow> error + DNSQuery" where
  "normalizeDNSQuery rt i data =
     (if data = Scalar JUndefined \<or> data = Scalar JNull then Inl TypeError
      else
        case js_or (get_prop data ''query'') (js_or (get_prop data ''domain'')
               (js_or (get_prop data ''qname'') (js_or (get_prop data ''Question'') (JStr [])))) of
          JStr q \<Rightarrow>
            (let entropy = calculateEntropy q;
                 length = real (length q);
                 metadata = extract_metadata data;
                 c = classifyQuery (Math_random rt i)
                       \<lparr>p_query = Some q, p_length = Some length,
                        p_entropy = Some entropy, p_threatScore = None\<rparr>
             in case (js_or (get_prop data ''sourceIp'') (js_or (get_prop data ''src_ip'')
                        (js_or (get_prop data ''client_ip'') (js_or (get_prop data ''SourceIP'')
                           (JStr (ascii ''192.168.1.1''))))),
                      js_or (get_prop data ''type'') (js_or (get_prop data ''qtype'')
                        (js_or (get_prop data ''QueryType'') (JStr (ascii ''A''))))) of
                  (JStr ip, JStr ty) \<Rightarrow>
                    (let queryObj =
                           \<lparr>id_f = js_or (get_prop data ''id'') (JStr (random_id rt i)),
                            timestamp = js_or (get_prop data ''timestamp'') (js_or (get_prop data ''time'')
                                          (js_or (get_prop data ''Timestamp'') (JStr (date_now rt i)))),
                            sourceIp = ip,
                            query = q,
                            type_f = toUpperCase rt ty,
                            responseCode = js_or (get_prop data ''responseCode'')
                                             (js_or (get_prop data ''rcode'')
                                                (js_or (get_prop data ''ResponseCode'')
                                                   (JStr (ascii ''NOERROR'')))),
                            length_f = length,
                            entropy = entropy,
                            location = None, lat = None, lng = None,
                            label_f = Some (fst c),
                            confidence = Some (snd c),
                            threatScore = 0,
                            reputation_f = Some UNKNOWN,
                            isNew = None,
                            metadata = Some metadata\<rparr>;
                         queryObj = queryObj\<lparr>reputation_f :=
                                                Some (checkIpReputation (sourceIp queryObj))\<rparr>;
                         queryObj = queryObj\<lparr>threatScore := calculateThreatScore queryObj\<rparr>
                     in Inr queryObj)
                | _ \<Rightarrow> Inl TypeError)
        | _ \<Rightarrow> Inl TypeError)"

section \<open>Multi-Format Parser\<close>

text \<open>
  The code units \<open>trim\<close> strips and \<open>\s\<close> matches: the white space and line terminator
  characters of ECMAScript.
\<close>

definition is_js_space :: "16 word \<Rightarrow> bool" where
  "is_js_space c =
     (c \<in> {0x09, 0x0A, 0x0B, 0x0C, 0x0D, 0x20, 0xA0, 0x1680, 0x2028, 0x2029, 0x202F,
            0x205F, 0x3000, 0xFEFF}
      \<or> (0x2000 \<le> c \<and> c \<le> 0x200A))"

definition trim :: "jsstring \<Rightarrow> jsstring" where
  "trim s = rev (dropWhile is_js_space (rev (dropWhile is_js_space s)))"

text \<open>\<open>\d\<close> and the word characters that decide \<open>\b\<close>.\<close>

definition is_digit :: "16 word \<Rightarrow> bool" where
  "is_digit c = (0x30 \<le> c \<and> c \<le> 0x39)"

definition is_word_char :: "16 word \<Rightarrow> bool" where
  "is_word_char c =
     ((0x41 \<le> c \<and> c \<le> 0x5A) \<or> (0x61 \<le> c \<and> c \<le> 0x7A) \<or> is_digit c \<or> c = 0x5F)"

text \<open>
  \<open>s.replace(/^["']|["']$/g, '')\<close>: a quote character at the start is removed, then a
  quote character at the end of what is left.
\<close>

definition is_quote :: "16 word \<Rightarrow> bool" where
  "is_quote c = (c = 0x22 \<or> c = 0x27)"

definition strip_quotes :: "jsstring \<Rightarrow> jsstring" where
  "strip_quotes s =
     (let s1 = (case s of [] \<Rightarrow> [] | c # cs \<Rightarrow> if is_quote c then cs else s)
      in if s1 \<noteq> [] \<and> is_quote (last s1) then butlast s1 else s1)"

text \<open>
  \<open>line.split(/[\t\s]+/)\<close>: the pieces between maximal runs of white space; a run at the
  start or at the end leaves an empty piece there.
\<close>

fun split_ws :: "jsstring \<Rightarrow> jsstring list" where
  "split_ws [] = [[]]"
| "split_ws (c # cs) =
     (if is_js_space c then
        (case cs of
           [] \<Rightarrow> [] # split_ws cs
         | d # _ \<Rightarrow> if is_js_space d then split_ws cs else [] # split_ws cs)
      else (case split_ws cs of
              [] \<Rightarrow> [[c]]
            | p # ps \<Rightarrow> (c # p) # ps))"

text \<open>\<open>p.match(/^\d+$/)\<close>\<close>

definition all_digits :: "jsstring \<Rightarrow> bool" where
  "all_digits p = (p \<noteq> [] \<and> list_all is_digit p)"

text \<open>
  \<open>p.match(/\b\d{1,3}\.\d{1,3}\.\d{1,3}\.\d{1,3}\b/)\<close>. \<open>take_digits\<close> lists what can
  follow one to three digits, \<open>take_dot\<close> what follows a dot, \<open>ipv4_rests\<close> what can
  follow a dotted quad that starts here. The quad starts and ends with a digit, so the
  word boundaries ask for no word character before it and none after it.
\<close>

definition take_digits :: "jsstring \<Rightarrow> jsstring list" where
  "take_digits s =
     map (\<lambda>n. drop n s)
       (filter (\<lambda>n. n \<le> length s \<and> list_all is_digit (take n s)) [1, 2, 3])"

definition take_dot :: "jsstring \<Rightarrow> jsstring list" where
  "take_dot s = (case s of [] \<Rightarrow> [] | c # cs \<Rightarrow> if c = 0x2E then [cs] else [])"

definition ipv4_rests :: "jsstring \<Rightarrow> jsstring list" where
  "ipv4_rests s =
     (let r = take_digits s;
          r = concat (map take_dot r);
          r = concat (map take_digits r);
          r = concat (map take_dot r);
          r = concat (map take_digits r);
          r = concat (map take_dot r)
      in concat (map take_digits r))"

definition boundary_after :: "jsstring \<Rightarrow> bool" where
  "boundary_after r = (case r of [] \<Rightarrow> True | c # _ \<Rightarrow> \<not> is_word_char c)"

definition boundary_before :: "16 word option \<Rightarrow> bool" where
  "boundary_before prev = (case prev of None \<Rightarrow> True | Some c \<Rightarrow> \<not> is_word_char c)"

fun ipv4_search :: "16 word option \<Rightarrow> jsstring \<Rightarrow> bool" where
  "ipv4_search prev [] = False"
| "ipv4_search prev (c # cs) =
     ((boundary_before prev \<and> list_ex boundary_after (ipv4_rests (c # cs)))
      \<or> ipv4_search (Some c) cs)"

definition ipv4_match :: "jsstring \<Rightarrow> bool" where
  "ipv4_match p = ipv4_search None p"

text \<open>Running a list of calls, the first exception ending the run.\<close>

fun collect :: "(error + 'a) list \<Rightarrow> error + 'a list" where
  "collect [] = Inr []"
| "collect (x # xs) =
     (case x of
        Inl e \<Rightarrow> Inl e
      | Inr v \<Rightarrow> (case collect xs of Inl e \<Rightarrow> Inl e | Inr vs \<Rightarrow> Inr (v # vs)))"

text \<open>
  Strategy 1, the body of the first \<open>try\<close>: \<open>None\<close> when \<open>JSON.parse\<close> or a call of the
  normaliser throws, which the \<open>catch\<close> swallows.
\<close>

definition json_items :: "json \<Rightarrow> json list" where
  "json_items parsed = (case parsed of Array xs \<Rightarrow> xs | _ \<Rightarrow> [parsed])"

definition whole_document :: "runtime \<Rightarrow> jsstring \<Rightarrow> DNSQuery list option" where
  "whole_document rt trimmed =
     (case JSON_parse rt trimmed of
        None \<Rightarrow> None
      | Some parsed \<Rightarrow>
          (let items = json_items parsed
           in case collect (map (\<lambda>(i, item). normalizeDNSQuery rt i item) (enumerate 0 items)) of
                Inl _ \<Rightarrow> None
              | Inr rs \<Rightarrow> Some rs))"

definition likelyHeaders :: "jsstring list" where
  "likelyHeaders =
     [ascii ''query'', ascii ''domain'', ascii ''qname'', ascii ''ip'', ascii ''src'',
      ascii ''timestamp'', ascii ''time'']"

definition defaultHeaders :: "jsstring list" where
  "defaultHeaders =
     [ascii ''timestamp'', ascii ''sourceIp'', ascii ''query'', ascii ''type'',
      ascii ''responseCode'']"

text \<open>
  The fields of a CSV line, \<open>line.split(',')\<close> with blanks and quotes stripped, and the
  object the inner \<open>forEach\<close> builds from the headers and the fields.
\<close>

definition csv_parts :: "jsstring \<Rightarrow> jsstring list" where
  "csv_parts line = map (\<lambda>p. strip_quotes (trim p)) (split_on 0x2C line)"

definition csv_object :: "jsstring list \<Rightarrow> jsstring list \<Rightarrow> fieldmap" where
  "csv_object currentHeaders parts =
     foldl (\<lambda>obj (i, h).
              if i < length parts then set_property obj h (JStr (parts ! i)) else obj)
       [] (enumerate 0 currentHeaders)"

text \<open>One data line of the CSV strategy: the records it pushes (none or one).\<close>

definition csv_line :: "runtime \<Rightarrow> jsstring list \<Rightarrow> nat \<Rightarrow> jsstring \<Rightarrow> error + DNSQuery list" where
  "csv_line rt currentHeaders n line =
     (let parts = csv_parts line;
          obj = csv_object currentHeaders parts
      in if truthy (get_prop (Object obj) ''query'') \<or> truthy (get_prop (Object obj) ''domain'')
            \<or> length parts \<ge> 3
         then (case normalizeDNSQuery rt n (Object obj) of
                 Inl e \<Rightarrow> Inl e
               | Inr r \<Rightarrow> Inr [r])
         else Inr [])"

text \<open>Header detection: whether the first line is a header row, and the headers in use.\<close>

definition csv_hasHeaders :: "runtime \<Rightarrow> jsstring \<Rightarrow> bool" where
  "csv_hasHeaders rt firstLine =
     list_ex (\<lambda>h. list_ex (\<lambda>lh. str_includes (toLowerCase rt h) lh) likelyHeaders)
       (csv_parts firstLine)"

definition csv_dataLines :: "runtime \<Rightarrow> jsstring list \<Rightarrow> jsstring \<Rightarrow> jsstring list" where
  "csv_dataLines rt lines firstLine =
     (if csv_hasHeaders rt firstLine then drop 1 lines else lines)"

definition csv_currentHeaders :: "runtime \<Rightarrow> jsstring \<Rightarrow> jsstring list" where
  "csv_currentHeaders rt firstLine =
     (if csv_hasHeaders rt firstLine then csv_parts firstLine else defaultHeaders)"

definition csv_records :: "runtime \<Rightarrow> jsstring list \<Rightarrow> jsstring \<Rightarrow> error + DNSQuery list" where
  "csv_records rt lines firstLine =
     (let dataLines = csv_dataLines rt lines firstLine;
          currentHeaders = csv_currentHeaders rt firstLine
      in case collect (map (\<lambda>(n, line). csv_line rt currentHeaders n line)
                         (enumerate 0 dataLines)) of
           Inl e \<Rightarrow> Inl e
         | Inr rss \<Rightarrow> Inr (concat rss))"

definition typeMnemonics :: "jsstring list" where
  "typeMnemonics =
     [ascii ''A'', ascii ''AAAA'', ascii ''TXT'', ascii ''CNAME'', ascii ''MX'', ascii ''NS'']"

text \<open>\<open>xs.find(f)\<close> as a value: the element found, or \<open>undefined\<close>.\<close>

text \<open>The test of the free-text fallback for a token that can be the query name.\<close>

definition is_name_token :: "jsstring \<Rightarrow> bool" where
  "is_name_token p = (str_includes p (ascii ''.'') \<and> \<not> all_digits p)"

definition find_str :: "(jsstring \<Rightarrow> bool) \<Rightarrow> jsstring list \<Rightarrow> jsval" where
  "find_str f xs = (case find f xs of None \<Rightarrow> JUndefined | Some p \<Rightarrow> JStr p)"

text \<open>
  The space and tab separated fallback for one line. \<open>parts[0].length\<close> would throw on
  an empty \<open>parts\<close>.
\<close>

definition free_text_line :: "runtime \<Rightarrow> nat \<Rightarrow> jsstring \<Rightarrow> error + DNSQuery list" where
  "free_text_line rt i line =
     (let parts = split_ws line;
          queryStr = find_str is_name_token parts;
          ipStr = find_str ipv4_match parts;
          type = js_or (find_str (\<lambda>p. toUpperCase rt p \<in> set typeMnemonics) parts)
                   (JStr (ascii ''A''))
      in if truthy queryStr then
           (case parts of
              [] \<Rightarrow> Inl TypeError
            | p0 # _ \<Rightarrow>
                (case normalizeDNSQuery rt i
                        (Object [(ascii ''query'', queryStr), (ascii ''sourceIp'', ipStr),
                                 (ascii ''type'', type),
                                 (ascii ''timestamp'',
                                  if length p0 > 10 then JStr p0 else JUndefined)]) of
                   Inl e \<Rightarrow> Inl e
                 | Inr r \<Rightarrow> Inr [r]))
         else Inr [])"

text \<open>
  Strategy 3 for one line: the \<open>try\<close> around \<open>JSON.parse\<close> and the normaliser, then the
  fallback when either threw.
\<close>

definition line_records :: "runtime \<Rightarrow> nat \<Rightarrow> jsstring \<Rightarrow> error + DNSQuery list" where
  "line_records rt i line =
     (case JSON_parse rt line of
        None \<Rightarrow> free_text_line rt i line
      | Some data \<Rightarrow>
          (case normalizeDNSQuery rt i data of
             Inr r \<Rightarrow> Inr [r]
           | Inl _ \<Rightarrow> free_text_line rt i line))"

definition line_by_line :: "runtime \<Rightarrow> jsstring list \<Rightarrow> error + DNSQuery list" where
  "line_by_line rt lines =
     (case collect (map (\<lambda>(i, line). line_records rt i line) (enumerate 0 lines)) of
        Inl e \<Rightarrow> Inl e
      | Inr rss \<Rightarrow> Inr (concat rss))"

definition content_lines :: "jsstring \<Rightarrow> jsstring list" where
  "content_lines trimmed =
     filter (\<lambda>l. l \<noteq> [] \<and> \<not> prefix (ascii ''#'') l) (map trim (split_on 0x0A trimmed))"

definition isCSV :: "jsstring \<Rightarrow> bool" where
  "isCSV firstLine = (str_includes firstLine (ascii '','') \<and> \<not> str_includes firstLine [0x09])"

text \<open>
  \<open>parseLogContent\<close>. When no line is left after the comment lines are dropped,
  \<open>lines[0]\<close> is \<open>undefined\<close> and \<open>firstLine.includes\<close> throws.
\<close>

definition parseLogContent :: "runtime \<Rightarrow> jsstring \<Rightarrow> error + DNSQuery list" where
  "parseLogContent rt content =
     (let trimmed = trim content in
      if trimmed = [] then Inr []
      else
        case whole_document rt trimmed of
          Some rs \<Rightarrow> Inr rs
        | None \<Rightarrow>
            (let lines = content_lines trimmed in
             case lines of
               [] \<Rightarrow> Inl TypeError
             | firstLine # _ \<Rightarrow>
                 (case (if isCSV firstLine then csv_records rt lines firstLine else Inr []) of
                    Inl e \<Rightarrow> Inl e
                  | Inr queries \<Rightarrow>
                      if length queries > 0 then Inr queries
                      else line_by_line rt lines)))"

text \<open>
  A runtime for the sample evaluations. Its case conversions are the built-in ones on
  ASCII text and its \<open>JSON.parse\<close> throws; the samples are ASCII texts that are not JSON
  documents.
\<close>

definition ascii_upper :: "16 word \<Rightarrow> 16 word" where
  "ascii_upper c = (if 0x61 \<le> c \<and> c \<le> 0x7A then c - 0x20 else c)"

definition ascii_lower :: "16 word \<Rightarrow> 16 word" where
  "ascii_lower c = (if 0x41 \<le> c \<and> c \<le> 0x5A then c + 0x20 else c)"

definition sample_runtime :: runtime where
  "sample_runtime =
     \<lparr>JSON_parse = (\<lambda>s. None),
      toUpperCase = map ascii_upper,
      toLowerCase = map ascii_lower,
      random_id = (\<lambda>i. ascii ''k3x9q2m7a''),
      date_now = (\<lambda>i. ascii ''2024-01-01T00:00:00.000Z''),
      Math_random = (\<lambda>i. 1 / 2)\<rparr>"

section \<open>Sample inputs\<close>

definition blank_record :: DNSQuery where
  "blank_record =
     \<lparr>id_f = JStr (ascii ''r1''), timestamp = JStr (ascii ''2024-01-01T00:00:00.000Z''),
      sourceIp = ascii ''8.8.8.8'', query = ascii ''example.com'', type_f = ascii ''A'',
      responseCode = JStr (ascii ''NOERROR''), length_f = 11, entropy = 3,
      location = None, lat = None, lng = None, label_f = None, confidence = None,
      threatScore = 0, reputation_f = Some UNKNOWN, isNew = None, metadata = None\<rparr>"

definition long_query_item :: json where
  "long_query_item =
     Object [(ascii ''domain'', JStr (replicate 50 0x61)),
             (ascii ''src_ip'', JStr (ascii ''192.168.1.105'')),
             (ascii ''qtype'', JStr (ascii ''null'')),
             (ascii ''rcode'', JStr (ascii ''NXDOMAIN''))]"

text \<open>A runtime whose \<open>JSON.parse\<close> reads the document \<open>{}\<close>, the empty object.\<close>

definition braces_runtime :: runtime where
  "braces_runtime =
     sample_runtime
       \<lparr>JSON_parse := (\<lambda>s. if s = ascii ''{}'' then Some (Object []) else None)\<rparr>"

definition csv_sample :: jsstring where
  "csv_sample = ascii ''query,sourceIp,type'' @ [0x0A] @ ascii ''evil.tunnel.net,1.2.3.4,TXT''"

definition free_text_sample :: jsstring where
  "free_text_sample = ascii ''example.com 10.0.0.5 TXT''"

section \<open>Reputation Checker: lookup order\<close>

text \<open>
  C7. For every IP string the lookup order is: member of the fixed malicious set gives
  MALICIOUS; otherwise member of the fixed suspicious set gives SUSPICIOUS; otherwise the
  prefix 192.168. gives CLEAN; otherwise UNKNOWN. In particular 192.168.1.105 is MALICIOUS
  although it carries the private prefix, 192.168.50.1 is CLEAN and 8.8.8.8 is UNKNOWN.
\<close>

theorem checkIpReputation_lookup_order:
  "(ip \<in> {ascii ''192.168.1.105'', ascii ''45.33.22.11'', ascii ''103.22.11.55'',
           ascii ''185.22.11.33''} \<longrightarrow> checkIpReputation ip = MALICIOUS)
   \<and> (ip \<notin> {ascii ''192.168.1.105'', ascii ''45.33.22.11'', ascii ''103.22.11.55'',
             ascii ''185.22.11.33''}
        \<and> ip \<in> {ascii ''192.168.1.200'', ascii ''104.16.132.229''}
        \<longrightarrow> checkIpReputation ip = SUSPICIOUS)
   \<and> (ip \<notin> {ascii ''192.168.1.105'', ascii ''45.33.22.11'', ascii ''103.22.11.55'',
             ascii ''185.22.11.33'', ascii ''192.168.1.200'', ascii ''104.16.132.229''}
        \<and> prefix (ascii ''192.168.'') ip
        \<longrightarrow> checkIpReputation ip = CLEAN)
   \<and> (ip \<notin> {ascii ''192.168.1.105'', ascii ''45.33.22.11'', ascii ''103.22.11.55'',
             ascii ''185.22.11.33'', ascii ''192.168.1.200'', ascii ''104.16.132.229''}
        \<and> \<not> prefix (ascii ''192.168.'') ip
        \<longrightarrow> checkIpReputation ip = UNKNOWN)
   \<and> checkIpReputation (ascii ''192.168.1.105'') = MALICIOUS
   \<and> checkIpReputation (ascii ''192.168.50.1'') = CLEAN
   \<and> checkIpReputation (ascii ''8.8.8.8'') = UNKNOWN"
  by (simp add: checkIpReputation_def maliciousIps_def suspiciousIps_def ascii_def)

theorem checkIpReputation_lookup_order_witness:
  "checkIpReputation (ascii ''45.33.22.11'') = MALICIOUS
   \<and> checkIpReputation (ascii ''192.168.1.105'') = MALICIOUS"
  using checkIpReputation_lookup_order [of "ascii ''45.33.22.11''"]
  by (simp add: ascii_def)

section \<open>JavaScript numbers: rounding to a double\<close>

lemma rne_of_int [simp]: "rne (of_int n) = n"
  by (simp add: rne_def)

lemma rne_mono: "x \<le> y \<Longrightarrow> rne x \<le> rne y"
proof -
  assume xy: "x \<le> y"
  have le: "\<lfloor>x\<rfloor> \<le> \<lfloor>y\<rfloor>" using xy by (rule floor_mono)
  show ?thesis
  proof (cases "\<lfloor>x\<rfloor> = \<lfloor>y\<rfloor>")
    case True
    with xy show ?thesis by (auto simp: rne_def Let_def)
  next
    case False
    with le have "\<lfloor>x\<rfloor> + 1 \<le> \<lfloor>y\<rfloor>" by simp
    moreover have "rne x \<le> \<lfloor>x\<rfloor> + 1" by (simp add: rne_def Let_def)
    moreover have "\<lfloor>y\<rfloor> \<le> rne y" by (simp add: rne_def Let_def)
    ultimately show ?thesis by linarith
  qed
qed

lemma fl_0 [simp]: "fl 0 = 0"
  by (simp add: fl_def)

lemma floor_log2_iff:
  assumes "0 < x"
  shows "\<lfloor>log 2 x\<rfloor> = k \<longleftrightarrow> 2 powi k \<le> x \<and> x < 2 powi (k + 1)"
proof -
  have a: "(2::real) powr of_int k = 2 powi k"
    by (simp add: powr_real_of_int')
  have b: "(2::real) powr of_int (k + 1) = 2 powi (k + 1)"
    by (rule powr_real_of_int') simp_all
  from floor_log_eq_powr_iff [of x 2 k] assms show ?thesis
    by (simp only: a b)
qed

lemma fl_binade:
  assumes "2 powi k \<le> \<bar>x\<bar>" and "\<bar>x\<bar> < 2 powi (k + 1)"
  shows "fl x = of_int (rne (x / 2 powi (k - 52))) * 2 powi (k - 52)"
proof -
  have "0 < (2::real) powi k" by simp
  with assms(1) have x0: "x \<noteq> 0" by linarith
  then have "\<lfloor>log 2 \<bar>x\<bar>\<rfloor> = k"
    using assms by (simp add: floor_log2_iff)
  with x0 show ?thesis by (simp add: fl_def Let_def)
qed

lemma binade_exists:
  fixes x :: real
  assumes "x \<noteq> 0"
  obtains k where "2 powi k \<le> \<bar>x\<bar>" and "\<bar>x\<bar> < 2 powi (k + 1)"
  using assms floor_log2_iff [of "\<bar>x\<bar>" "\<lfloor>log 2 \<bar>x\<bar>\<rfloor>"] by auto

text \<open>Within its binade the scaled value lies in [2^52, 2^53), and so does its rounding, up to 2^53.\<close>

lemma scaled_bounds:
  fixes x :: real
  assumes "2 powi k \<le> \<bar>x\<bar>" and "\<bar>x\<bar> < 2 powi (k + 1)"
  shows "2 ^ 52 \<le> \<bar>x / 2 powi (k - 52)\<bar>" and "\<bar>x / 2 powi (k - 52)\<bar> < 2 ^ 53"
proof -
  have u: "(2::real) powi (k - 52) = 2 powi k / 2 ^ 52"
    by (simp add: power_int_diff)
  have p: "0 < (2::real) powi k" by simp
  have "2 ^ 52 * 2 powi k \<le> \<bar>x\<bar> * 2 ^ 52" using assms(1) by simp
  then show "2 ^ 52 \<le> \<bar>x / 2 powi (k - 52)\<bar>"
    using p by (simp add: u abs_mult field_simps)
  have "(2::real) powi (k + 1) = 2 * 2 powi k"
    by (simp add: power_int_add)
  with assms(2) have "\<bar>x\<bar> * 2 ^ 52 < 2 ^ 53 * 2 powi k" by simp
  then show "\<bar>x / 2 powi (k - 52)\<bar> < 2 ^ 53"
    using p by (simp add: u abs_mult field_simps)
qed

lemma rne_ge: "of_int n \<le> y \<Longrightarrow> n \<le> rne y"
  using rne_mono [of "of_int n" y] by simp

lemma rne_le: "y \<le> of_int n \<Longrightarrow> rne y \<le> n"
  using rne_mono [of y "of_int n"] by simp

lemma rne_bounds:
  assumes "2 ^ 52 \<le> \<bar>y\<bar>" and "\<bar>y\<bar> < 2 ^ 53"
  shows "2 ^ 52 \<le> \<bar>rne y\<bar> \<and> \<bar>rne y\<bar> \<le> 2 ^ 53"
proof (cases "0 \<le> y")
  case True
  with assms have "of_int (2 ^ 52) \<le> y" "y \<le> of_int (2 ^ 53)" by auto
  from rne_ge [OF this(1)] rne_le [OF this(2)] show ?thesis by simp
next
  case False
  with assms have "y \<le> of_int (- (2 ^ 52))" "of_int (- (2 ^ 53)) \<le> y" by auto
  from rne_le [OF this(1)] rne_ge [OF this(2)] show ?thesis by simp
qed


lemma powi2_less_iff: "(2::real) powi a < 2 powi b \<longleftrightarrow> a < b"
proof
  assume l: "(2::real) powi a < 2 powi b"
  show "a < b"
  proof (rule ccontr)
    assume "\<not> a < b"
    then have "(2::real) powi b \<le> 2 powi a"
      by (intro power_int_increasing) simp_all
    with l show False by simp
  qed
next
  assume "a < b"
  then show "(2::real) powi a < 2 powi b"
    by (intro power_int_strict_increasing) simp_all
qed

lemma powi2_shift: "(2::real) ^ n * 2 powi e = 2 powi (e + int n)"
  by (simp add: power_int_add)

text \<open>A number with a significand of at most 53 bits is a double.\<close>

lemma fl_representable:
  assumes "\<bar>m\<bar> < 2 ^ 53"
  shows "fl (of_int m * 2 powi e) = of_int m * 2 powi e"
proof (cases "m = 0")
  case True
  then show ?thesis by simp
next
  case False
  let ?x = "of_int m * (2::real) powi e"
  have x0: "?x \<noteq> 0" using False by simp
  then obtain k where k: "2 powi k \<le> \<bar>?x\<bar>" "\<bar>?x\<bar> < 2 powi (k + 1)"
    by (rule binade_exists)
  have "\<bar>?x\<bar> < 2 ^ 53 * 2 powi e"
    using assms by (simp add: abs_mult)
  also have "\<dots> = 2 powi (e + 53)" by (simp add: power_int_add)
  finally have "(2::real) powi k < 2 powi (e + 53)" using k(1) by linarith
  then have "k < e + 53" by (simp add: powi2_less_iff)
  then have "0 \<le> e - (k - 52)" by simp
  then obtain n :: nat where n: "e - (k - 52) = int n"
    by (rule nonneg_int_cases)
  from n have "e = int n + (k - 52)" by linarith
  then have "(2::real) powi e = 2 powi (int n + (k - 52))" by simp
  also have "\<dots> = 2 ^ n * 2 powi (k - 52)" by (simp add: power_int_add)
  finally have e: "(2::real) powi e = 2 ^ n * 2 powi (k - 52)" .
  have "?x / 2 powi (k - 52) = of_int (m * 2 ^ n)"
    by (simp add: e)
  then have "rne (?x / 2 powi (k - 52)) = m * 2 ^ n"
    by (simp only: rne_of_int)
  then show ?thesis
    unfolding fl_binade [OF k] by (simp add: e)
qed


lemma fl_of_int: "\<bar>m\<bar> < 2 ^ 53 \<Longrightarrow> fl (of_int m) = of_int m"
  using fl_representable [of m 0] by simp

lemma fl_numeral [simp]: "numeral w < (2::int) ^ 53 \<Longrightarrow> fl (numeral w) = numeral w"
  using fl_of_int [of "numeral w"] by simp

lemma fl_idem [simp]: "fl (fl x) = fl x"
proof (cases "x = 0")
  case True
  then show ?thesis by simp
next
  case False
  then obtain k where k: "2 powi k \<le> \<bar>x\<bar>" "\<bar>x\<bar> < 2 powi (k + 1)"
    by (rule binade_exists)
  let ?m = "rne (x / 2 powi (k - 52))"
  have b: "\<bar>?m\<bar> \<le> 2 ^ 53"
    using rne_bounds [OF scaled_bounds [OF k]] by simp
  show ?thesis
  proof (cases "\<bar>?m\<bar> < 2 ^ 53")
    case True
    then show ?thesis
      unfolding fl_binade [OF k] by (rule fl_representable)
  next
    case False
    with b have "?m = 2 ^ 53 \<or> ?m = - (2 ^ 53)" by linarith
    then obtain s :: int where s: "\<bar>s\<bar> < 2 ^ 53" "?m = s * 2 ^ 53"
      by (auto intro: that [of 1] that [of "- 1"])
    have "of_int ?m * (2::real) powi (k - 52) = of_int s * (2 ^ 53 * 2 powi (k - 52))"
      by (simp add: s(2))
    also have "\<dots> = of_int s * 2 powi (k - 52 + 53)"
      using powi2_shift [of 53 "k - 52"] by simp
    finally show ?thesis
      unfolding fl_binade [OF k] using fl_representable [OF s(1)] by simp
  qed
qed

lemma fl_nonneg: "0 \<le> x \<Longrightarrow> 0 \<le> fl x"
proof (cases "x = 0")
  case True
  then show ?thesis by simp
next
  case False
  assume "0 \<le> x"
  then have "of_int 0 \<le> x / 2 powi (\<lfloor>log 2 \<bar>x\<bar>\<rfloor> - 52)" by simp
  from rne_ge [OF this] False show ?thesis by (simp add: fl_def Let_def)
qed

lemma fl_bounds:
  assumes "0 < x" and "2 powi k \<le> x" and "x < 2 powi (k + 1)"
  shows "2 powi k \<le> fl x" and "fl x \<le> 2 powi (k + 1)"
proof -
  from assms have k: "2 powi k \<le> \<bar>x\<bar>" "\<bar>x\<bar> < 2 powi (k + 1)" by simp_all
  let ?u = "(2::real) powi (k - 52)"
  have u: "0 < ?u" by simp
  have lo: "2 ^ 52 * ?u = 2 powi k"
    using powi2_shift [of 52 "k - 52"] by simp
  have "k - 52 + int 53 = k + 1" by simp
  then have hi: "2 ^ 53 * ?u = 2 powi (k + 1)"
    using powi2_shift [of 53 "k - 52"] by (simp only:)
  from scaled_bounds [OF k] assms(1) u
  have "of_int (2 ^ 52) \<le> x / ?u" "x / ?u \<le> of_int (2 ^ 53)" by simp_all
  from rne_ge [OF this(1)] rne_le [OF this(2)]
  have "(of_int (2 ^ 52) :: real) \<le> of_int (rne (x / ?u))"
    and "(of_int (rne (x / ?u)) :: real) \<le> of_int (2 ^ 53)"
    by (simp_all only: of_int_le_iff)
  then have "2 ^ 52 * ?u \<le> of_int (rne (x / ?u)) * ?u"
    and "of_int (rne (x / ?u)) * ?u \<le> 2 ^ 53 * ?u"
    using u by (simp_all only: of_int_numeral of_int_power mult_le_cancel_right_pos)
  then show "2 powi k \<le> fl x" and "fl x \<le> 2 powi (k + 1)"
    unfolding fl_binade [OF k] lo hi by simp_all
qed

lemma fl_mono:
  assumes "0 \<le> x" and "x \<le> y"
  shows "fl x \<le> fl y"
proof (cases "x = 0")
  case True
  with assms fl_nonneg [of y] show ?thesis by simp
next
  case False
  with assms have x: "0 < x" and y: "0 < y" by simp_all
  from x obtain kx where kx: "2 powi kx \<le> \<bar>x\<bar>" "\<bar>x\<bar> < 2 powi (kx + 1)"
    using binade_exists [of x] by auto
  from y obtain ky where ky: "2 powi ky \<le> \<bar>y\<bar>" "\<bar>y\<bar> < 2 powi (ky + 1)"
    using binade_exists [of y] by auto
  from kx(1) ky(2) x y assms(2) have "(2::real) powi kx < 2 powi (ky + 1)" by simp
  then have le: "kx \<le> ky" by (simp add: powi2_less_iff)
  show ?thesis
  proof (cases "kx = ky")
    case True
    have "x / 2 powi (ky - 52) \<le> y / 2 powi (ky - 52)"
      using assms(2) by (simp add: divide_right_mono)
    from rne_mono [OF this] show ?thesis
      unfolding fl_binade [OF kx] fl_binade [OF ky] True
      by (simp add: mult_right_mono)
  next
    case False
    with le have "kx + 1 \<le> ky" by simp
    then have "(2::real) powi (kx + 1) \<le> 2 powi ky"
      by (intro power_int_increasing) simp_all
    moreover have "fl x \<le> 2 powi (kx + 1)"
      using fl_bounds(2) [OF x] kx x by simp
    moreover have "2 powi ky \<le> fl y"
      using fl_bounds(1) [OF y] ky y by simp
    ultimately show ?thesis by linarith
  qed
qed

text \<open>The rounding of a number whose binade is known, for evaluation.\<close>

lemma fl_scaled:
  assumes "2 ^ 52 \<le> \<bar>x\<bar> * 2 ^ n" and "\<bar>x\<bar> * 2 ^ n < 2 ^ 53"
  shows "fl x = of_int (rne (x * 2 ^ n)) / 2 ^ n"
proof -
  have u: "(2::real) powi (52 - int n - 52) = 1 / 2 ^ n"
    by (simp add: power_int_minus_divide)
  have p: "(2::real) powi (52 - int n) = 2 ^ 52 / 2 ^ n"
    by (simp add: power_int_diff)
  have q: "(2::real) powi (52 - int n + 1) = 2 ^ 53 / 2 ^ n"
    using power_int_diff [of "2::real" 53 "int n"] by (simp add: algebra_simps)
  have "2 powi (52 - int n) \<le> \<bar>x\<bar>" "\<bar>x\<bar> < 2 powi (52 - int n + 1)"
    using assms unfolding p q by (simp_all add: field_simps)
  from fl_binade [OF this] show ?thesis
    unfolding u by simp
qed


lemma fl_half [simp]: "numeral w < (2::int) ^ 53 \<Longrightarrow> fl (numeral w / 2) = numeral w / 2"
  using fl_representable [of "numeral w" "- 1"] by (simp add: power_int_minus_divide)

section \<open>Threat Scorer: the six factors and the range\<close>

lemma entropy_factor_step:
  "(if e > 35 / 10 then fl (0 + min 40 (fl (fl (e - 35 / 10) * 30))) else 0)
   = fl (0 + entropy_factor e)"
  by (simp add: entropy_factor_def)

lemma length_factor_step:
  "(if n > 40 then fl (fl s + min 20 (fl (fl (n - 40) * (5 / 10)))) else fl s)
   = fl (fl s + length_factor n)"
  by (simp add: length_factor_def)

lemma response_code_factor_step:
  "(if rc = JStr (ascii ''NXDOMAIN'') then fl (fl s + 15)
    else if rc = JStr (ascii ''SERVFAIL'') then fl (fl s + 10) else fl s)
   = fl (fl s + response_code_factor rc)"
  by (simp add: response_code_factor_def)

lemma query_type_factor_step:
  "(if t = ascii ''TXT'' then fl (fl s + 10) else if t = ascii ''NULL'' then fl (fl s + 15)
    else fl s)
   = fl (fl s + query_type_factor t)"
  by (simp add: query_type_factor_def)

lemma geolocation_factor_step:
  "(if location_truthy l \<and> list_ex (\<lambda>loc. location_includes l loc) highRiskLocations
    then fl (fl s + 15)
    else if \<not> location_truthy l \<or> l = Some (ascii ''Resolving...'') then fl (fl s + 5)
    else fl s)
   = fl (fl s + geolocation_factor l)"
  by (cases l) (auto simp: location_truthy_def location_includes_def highRiskLocations_def
      geolocation_factor_def contains_high_risk_def)

lemma reputation_factor_step:
  "(if r = Some MALICIOUS then fl (fl s + 25) else if r = Some SUSPICIOUS then fl (fl s + 15)
    else fl s)
   = fl (fl s + reputation_factor r)"
  by (simp add: reputation_factor_def)

lemma calculateThreatScore_factors: "calculateThreatScore q = threat_score_factors q"
  unfolding calculateThreatScore_def threat_score_factors_def Let_def double_sum_def
    foldl.simps entropy_factor_step length_factor_step response_code_factor_step
    query_type_factor_step geolocation_factor_step reputation_factor_step
  by (rule refl)


lemma factors_nonneg:
  "0 \<le> entropy_factor e" "0 \<le> length_factor n" "0 \<le> response_code_factor rc"
  "0 \<le> query_type_factor t" "0 \<le> geolocation_factor l" "0 \<le> reputation_factor r"
proof -
  show "0 \<le> entropy_factor e"
    by (simp add: entropy_factor_def fl_nonneg)
  show "0 \<le> length_factor n"
    by (simp add: length_factor_def fl_nonneg)
qed (auto simp: response_code_factor_def query_type_factor_def geolocation_factor_def
      reputation_factor_def split: option.splits)

lemma foldl_fl_bounds:
  assumes "0 \<le> s" and "\<forall>f \<in> set fs. 0 \<le> f"
  shows "0 \<le> foldl (\<lambda>s f. fl (s + f)) s fs"
    and "5 \<le> s \<or> (\<exists>f \<in> set fs. 5 \<le> f) \<Longrightarrow> 5 \<le> foldl (\<lambda>s f. fl (s + f)) s fs"
  using assms
proof (induction fs arbitrary: s)
  case Nil
  {
    case 1
    then show ?case by simp
  next
    case 2
    then show ?case by simp
  }
next
  case (Cons f fs)
  {
    case 1
    then have "0 \<le> fl (s + f)" by (simp add: fl_nonneg)
    with 1 Cons.IH(1) [of "fl (s + f)"] show ?case by simp
  next
    case 2
    then have nn: "0 \<le> fl (s + f)" by (simp add: fl_nonneg)
    have five: "5 \<le> s \<or> 5 \<le> f \<Longrightarrow> 5 \<le> fl (s + f)"
    proof -
      assume "5 \<le> s \<or> 5 \<le> f"
      with 2 have "5 \<le> s + f" by auto
      from fl_mono [OF _ this] show ?thesis by simp
    qed
    from 2(1) have "5 \<le> fl (s + f) \<or> (\<exists>f \<in> set fs. 5 \<le> f)"
      using five by auto
    with 2 nn Cons.IH(2) [of "fl (s + f)"] show ?case by simp
  }
qed

lemma double_sum_nonneg: "\<forall>f \<in> set fs. 0 \<le> f \<Longrightarrow> 0 \<le> double_sum fs"
  unfolding double_sum_def by (rule foldl_fl_bounds(1)) simp_all

lemma double_sum_ge_5:
  "\<forall>f \<in> set fs. 0 \<le> f \<Longrightarrow> \<exists>f \<in> set fs. 5 \<le> f \<Longrightarrow> 5 \<le> double_sum fs"
  unfolding double_sum_def by (rule foldl_fl_bounds(2)) simp_all

lemma round_clamp:
  assumes "0 \<le> x"
  shows "min 100 (Math_round x) \<in> \<int> \<and> 0 \<le> min 100 (Math_round x)
         \<and> min 100 (Math_round x) \<le> 100"
  using assms unfolding Math_round_def min_def by auto

lemma double_3_55: "fl (355 / 100) = 3996944669291315 / 1125899906842624"
  using fl_scaled [of "355 / 100" 51] by (simp add: rne_def)

lemma double_3_55_factor:
  "entropy_factor (3996944669291315 / 1125899906842624) = 844424930131965 / 562949953421312"
proof -
  have 1: "(3996944669291315 / 1125899906842624 - 35 / 10 :: real)
             = 56294995342131 / 1125899906842624"
    by simp
  have 2: "fl (56294995342131 / 1125899906842624) = 56294995342131 / 1125899906842624"
    using fl_scaled [of "56294995342131 / 1125899906842624" 57] by (simp add: rne_def)
  have 3: "(56294995342131 / 1125899906842624 * 30 :: real)
             = 844424930131965 / 562949953421312"
    by simp
  have 4: "fl (844424930131965 / 562949953421312) = 844424930131965 / 562949953421312"
    using fl_scaled [of "844424930131965 / 562949953421312" 52] by (simp add: rne_def)
  have 5: "\<not> (3996944669291315 / 1125899906842624 :: real) \<le> 35 / 10"
    by simp
  have 6: "min 40 (844424930131965 / 562949953421312 :: real)
             = 844424930131965 / 562949953421312"
    by simp
  show ?thesis
    unfolding entropy_factor_def by (simp only: 5 if_False 1 2 3 4 6)
qed

lemma double_3_55_score:
  "double_sum [844424930131965 / 562949953421312, 0, 0, 0, 5, 0]
     = 3659174697238525 / 562949953421312"
proof -
  have 1: "fl (844424930131965 / 562949953421312) = 844424930131965 / 562949953421312"
    using fl_scaled [of "844424930131965 / 562949953421312" 52] by (simp add: rne_def)
  have 2: "(844424930131965 / 562949953421312 + 5 :: real)
             = 3659174697238525 / 562949953421312"
    by simp
  have 3: "fl (3659174697238525 / 562949953421312) = 3659174697238525 / 562949953421312"
    using fl_scaled [of "3659174697238525 / 562949953421312" 50] by (simp add: rne_def)
  show ?thesis
    unfolding double_sum_def foldl.simps by (simp only: add_0 add_0_right 1 2 3)
qed

text \<open>
  C1, as stated, fails twice. For a record whose location is the empty string the code
  adds the +5 of the branch \<open>!query.location\<close>, while the claim's geolocation factor is 0
  there (the location is present, is not the sentinel and contains no high-risk name).
  And the code adds in double arithmetic: for entropy 3.55 and no other factor but the +5
  of an absent location, the double 3.55 lies below 3.55, the sum is below 6.5 and the
  score is 6, while the sum of the factors over the reals is 6.5 and rounds to 7.
\<close>

theorem calculateThreatScore_empty_location:
  "calculateThreatScore (blank_record\<lparr>location := Some []\<rparr>) = 5
   \<and> threat_score_spec (blank_record\<lparr>location := Some []\<rparr>) = 0
   \<and> calculateThreatScore (blank_record\<lparr>entropy := 355 / 100\<rparr>) = 6
   \<and> threat_score_spec (blank_record\<lparr>entropy := 355 / 100\<rparr>) = 7"
proof (intro conjI)
  show "calculateThreatScore (blank_record\<lparr>location := Some []\<rparr>) = 5"
    by (simp add: calculateThreatScore_factors threat_score_factors_def double_sum_def
        blank_record_def entropy_factor_def length_factor_def response_code_factor_def
        query_type_factor_def geolocation_factor_def reputation_factor_def ascii_def
        Math_round_def)
  show "threat_score_spec (blank_record\<lparr>location := Some []\<rparr>) = 0"
    by (simp add: threat_score_spec_def blank_record_def Math_round_def ascii_def
        entropy_factor_spec_def length_factor_spec_def response_code_factor_def
        query_type_factor_def geolocation_factor_spec_def contains_high_risk_def
        reputation_factor_def)
  let ?q = "blank_record\<lparr>entropy := 355 / 100\<rparr>"
  have "entropy ?q = 355 / 100" by simp
  then have e: "fl (entropy ?q) = 3996944669291315 / 1125899906842624"
    by (simp only: double_3_55)
  have f: "length_factor (fl (length_f ?q)) = 0" "response_code_factor (responseCode ?q) = 0"
    "query_type_factor (type_f ?q) = 0" "geolocation_factor (location ?q) = 5"
    "reputation_factor (reputation_f ?q) = 0"
    by (simp_all add: blank_record_def length_factor_def response_code_factor_def
        query_type_factor_def geolocation_factor_def reputation_factor_def ascii_def)
  show "calculateThreatScore ?q = 6"
    unfolding calculateThreatScore_factors threat_score_factors_def e f double_3_55_factor
      double_3_55_score
    by (simp add: Math_round_def)
  show "threat_score_spec (blank_record\<lparr>entropy := 355 / 100\<rparr>) = 7"
    by (simp add: threat_score_spec_def blank_record_def Math_round_def ascii_def
        entropy_factor_spec_def length_factor_spec_def response_code_factor_def
        query_type_factor_def geolocation_factor_spec_def reputation_factor_def)
qed

text \<open>
  C1, amended. For every record, \<open>calculateThreatScore\<close> returns an integer in [0, 100]:
  the six factors added in their order in double arithmetic (the entropy and the length
  read as doubles, every subtraction, product and sum rounded to the nearest double), the
  total rounded by \<open>Math.round\<close> and clamped at 100. The geolocation factor is +5 when the
  location is absent, is the empty string or equals \<open>Resolving...\<close>, +15 when a
  non-empty location contains a high-risk name, else 0; the other five factors are as the
  claim states them.
\<close>

theorem calculateThreatScore_sum_of_factors:
  "calculateThreatScore q
     = min 100 (Math_round
         (double_sum
            [entropy_factor (fl (entropy q)), length_factor (fl (length_f q)),
             response_code_factor (responseCode q), query_type_factor (type_f q),
             geolocation_factor (location q), reputation_factor (reputation_f q)]))
   \<and> calculateThreatScore q \<in> \<int>
   \<and> 0 \<le> calculateThreatScore q \<and> calculateThreatScore q \<le> 100"
proof -
  have "0 \<le> double_sum
            [entropy_factor (fl (entropy q)), length_factor (fl (length_f q)),
             response_code_factor (responseCode q), query_type_factor (type_f q),
             geolocation_factor (location q), reputation_factor (reputation_f q)]"
    by (rule double_sum_nonneg) (simp add: factors_nonneg)
  from round_clamp [OF this] show ?thesis
    unfolding calculateThreatScore_factors threat_score_factors_def by simp
qed

theorem calculateThreatScore_sum_of_factors_witness:
  "calculateThreatScore
     (blank_record\<lparr>entropy := 5, length_f := 90, responseCode := JStr (ascii ''NXDOMAIN''),
        type_f := ascii ''NULL'', location := Some (ascii ''Moscow, Russia''),
        reputation_f := Some MALICIOUS\<rparr>) = 100"
  using calculateThreatScore_sum_of_factors
    [of "blank_record\<lparr>entropy := 5, length_f := 90,
           responseCode := JStr (ascii ''NXDOMAIN''), type_f := ascii ''NULL'',
           location := Some (ascii ''Moscow, Russia''), reputation_f := Some MALICIOUS\<rparr>"]
  by (simp add: blank_record_def double_sum_def entropy_factor_def length_factor_def
      response_code_factor_def query_type_factor_def geolocation_factor_def
      contains_high_risk_def reputation_factor_def ascii_def Math_round_def)

text \<open>
  A sample with two ties: entropy 3.55, length 46, NXDOMAIN, NULL, no location, a
  malicious source. The first +15 and the final +25 both land halfway between two doubles
  and are rounded to the even neighbour; the total is exactly 64.5 and the score is 65.
\<close>

lemma calculateThreatScore_tie_sample:
  "calculateThreatScore
     (blank_record\<lparr>entropy := 355 / 100, length_f := 46,
        responseCode := JStr (ascii ''NXDOMAIN''), type_f := ascii ''NULL'',
        reputation_f := Some MALICIOUS\<rparr>) = 65"
proof -
  let ?q = "blank_record\<lparr>entropy := 355 / 100, length_f := 46,
        responseCode := JStr (ascii ''NXDOMAIN''), type_f := ascii ''NULL'',
        reputation_f := Some MALICIOUS\<rparr>"
  have "entropy ?q = 355 / 100" by simp
  then have e: "fl (entropy ?q) = 3996944669291315 / 1125899906842624"
    by (simp only: double_3_55)
  have f: "length_factor (fl (length_f ?q)) = 3" "response_code_factor (responseCode ?q) = 15"
    "query_type_factor (type_f ?q) = 15" "geolocation_factor (location ?q) = 5"
    "reputation_factor (reputation_f ?q) = 25"
    by (simp_all add: blank_record_def length_factor_def response_code_factor_def
        query_type_factor_def geolocation_factor_def reputation_factor_def ascii_def)
  have 1: "fl (844424930131965 / 562949953421312) = 844424930131965 / 562949953421312"
    using fl_scaled [of "844424930131965 / 562949953421312" 52] by (simp add: rne_def)
  have 2: "fl (844424930131965 / 562949953421312 + 3) = 2533274790395901 / 562949953421312"
    using fl_scaled [of "844424930131965 / 562949953421312 + 3" 50] by (simp add: rne_def)
  have 3: "fl (2533274790395901 / 562949953421312 + 15) = 2744381022928895 / 140737488355328"
    using fl_scaled [of "2533274790395901 / 562949953421312 + 15" 48] by (simp add: rne_def)
  have 4: "fl (2744381022928895 / 140737488355328 + 15) = 4855443348258815 / 140737488355328"
    using fl_scaled [of "2744381022928895 / 140737488355328 + 15" 47] by (simp add: rne_def)
  have 5: "fl (4855443348258815 / 140737488355328 + 5) = 5559130790035455 / 140737488355328"
    using fl_scaled [of "4855443348258815 / 140737488355328 + 5" 47] by (simp add: rne_def)
  have 6: "fl (5559130790035455 / 140737488355328 + 25) = 129 / 2"
    using fl_scaled [of "5559130790035455 / 140737488355328 + 25" 46] by (simp add: rne_def)
  have s: "double_sum [844424930131965 / 562949953421312, 3, 15, 15, 5, 25] = 129 / 2"
    unfolding double_sum_def foldl.simps by (simp only: add_0 1 2 3 4 5 6)
  show ?thesis
    unfolding calculateThreatScore_factors threat_score_factors_def e f double_3_55_factor s
    by (simp add: Math_round_def)
qed


section \<open>Classifier: label and confidence\<close>



text \<open>
  C8. When the threat score the classifier uses lies in [0, 100] and \<open>Math.random()\<close>
  returns a value in [0, 1), the jitter lies in [0, 0.1) for Tunneling and in [0, 0.15)
  for Normal, the confidence is min(0.99, 0.7 + score/200 + jitter) for Tunneling and
  min(0.99, 0.8 + jitter) for Normal, and it lies in (0, 0.99].
\<close>

theorem classifyQuery_confidence_range:
  assumes "0 \<le> rnd" and "rnd < 1"
    and "0 \<le> (case p_threatScore q of Some s \<Rightarrow> s | None \<Rightarrow> 0)"
    and "(case p_threatScore q of Some s \<Rightarrow> s | None \<Rightarrow> 0) \<le> 100"
  shows "0 < snd (classifyQuery rnd q) \<and> snd (classifyQuery rnd q) \<le> 99 / 100
     \<and> (fst (classifyQuery rnd q) = Tunneling \<longrightarrow>
          0 \<le> rnd * (1 / 10) \<and> rnd * (1 / 10) < 1 / 10
          \<and> snd (classifyQuery rnd q)
              = min (99 / 100)
                  (7 / 10 + (case p_threatScore q of Some s \<Rightarrow> s | None \<Rightarrow> 0) / 200
                   + rnd * (1 / 10)))
     \<and> (fst (classifyQuery rnd q) = Normal \<longrightarrow>
          0 \<le> rnd * (15 / 100) \<and> rnd * (15 / 100) < 15 / 100
          \<and> snd (classifyQuery rnd q) = min (99 / 100) (8 / 10 + rnd * (15 / 100)))"
  using assms by (auto simp: classifyQuery_def Let_def min_def)

theorem classifyQuery_confidence_range_witness:
  "snd (classifyQuery (1 / 2)
          \<lparr>p_query = None, p_length = Some 10, p_entropy = Some 5, p_threatScore = Some 100\<rparr>)
     = 99 / 100
   \<and> snd (classifyQuery (1 / 2)
          \<lparr>p_query = None, p_length = Some 10, p_entropy = Some 3, p_threatScore = None\<rparr>)
     = 875 / 1000"
  using classifyQuery_confidence_range [of "1 / 2"
          "\<lparr>p_query = None, p_length = Some 10, p_entropy = Some 5, p_threatScore = Some 100\<rparr>"]
        classifyQuery_confidence_range [of "1 / 2"
          "\<lparr>p_query = None, p_length = Some 10, p_entropy = Some 3, p_threatScore = None\<rparr>"]
  by (simp add: classifyQuery_def Let_def)

section \<open>Stats Aggregator: the NXDOMAIN ratio\<close>

lemma split_on_not_Nil: "split_on sep s \<noteq> []"
  by (induction s) (auto split: list.splits)

text \<open>
  C9, as stated, fails: for the batch of one record with response code NOERROR the
  proportion of NXDOMAIN records is 0, and \<open>getStats\<close> reports 0.12.
\<close>

theorem getStats_nxDomainRatio_not_proportion:
  "nxDomainRatio (getStats [blank_record]) = 12 / 100
   \<and> nxdomain_proportion [blank_record] = 0"
  by (simp add: getStats_def nxdomain_proportion_def blank_record_def ascii_def Let_def)

text \<open>
  C9, amended. For every non-empty sequence of records, the \<open>nxDomainRatio\<close> field of the
  Feature Stats returned by \<open>getStats\<close> is the fixed placeholder 0.12, whatever the
  response codes of the records.
\<close>

theorem getStats_nxDomainRatio_placeholder:
  "logs \<noteq> [] \<Longrightarrow> nxDomainRatio (getStats logs) = 12 / 100"
  by (simp add: getStats_def Let_def)

theorem getStats_nxDomainRatio_placeholder_witness:
  "nxDomainRatio (getStats [blank_record\<lparr>responseCode := JStr (ascii ''NXDOMAIN'')\<rparr>])
     = 12 / 100"
  using getStats_nxDomainRatio_placeholder
    [of "[blank_record\<lparr>responseCode := JStr (ascii ''NXDOMAIN'')\<rparr>]"]
  by simp

section \<open>Entropy Calculator: constant strings and surrogate pairs\<close>

lemma not_high_and_low: "\<not> (is_high_surrogate c \<and> is_low_surrogate c)"
  unfolding is_high_surrogate_def is_low_surrogate_def by (auto simp: word_le_nat_alt)

lemma code_points_replicate: "code_points (replicate n c) = replicate n [c]"
proof (induction n rule: less_induct)
  case (less n)
  show ?case
  proof (cases n)
    case 0
    then show ?thesis by simp
  next
    case (Suc m)
    show ?thesis
    proof (cases m)
      case 0
      with Suc show ?thesis by simp
    next
      case (Suc k)
      with \<open>n = Suc m\<close> less [of m] not_high_and_low [of c] show ?thesis by simp
    qed
  qed
qed

lemma foldl_bump_replicate: "foldl bump [(k, m)] (replicate n k) = [(k, m + n)]"
  by (induction n arbitrary: m) auto

lemma char_freq_replicate: "char_freq (replicate (Suc n) c) = [([c], Suc n)]"
  unfolding char_freq_def code_points_replicate by (simp add: foldl_bump_replicate)

lemma for_in_single: "for_in [kv] = [kv]"
  by (simp add: for_in_def)

lemma toFixed_0: "toFixed d 0 = 0"
  by (simp add: toFixed_def)

text \<open>A string that repeats one code unit has entropy 0; so has the empty string.\<close>

lemma calculateEntropy_replicate: "calculateEntropy (replicate n c) = 0"
proof (cases n)
  case 0
  then show ?thesis by (simp add: calculateEntropy_def)
next
  case (Suc m)
  then show ?thesis
    by (simp add: calculateEntropy_def char_freq_replicate for_in_single entropy_step_def
        toFixed_0 del: replicate.simps)
qed

text \<open>
  The frequency table has one entry per code point, holding its number of occurrences, and
  the loop over it sums \<open>p * log2 p\<close> whatever the order of the keys. So for a string
  without a surrogate pair the result is the rounded Shannon entropy of its code units: it
  is invariant under permutation, and it is \<open>log2 n\<close>, rounded, when \<open>n\<close> distinct
  code units occur equally often.
\<close>

lemma code_points_pair_free: "pair_free s \<Longrightarrow> code_points s = map (\<lambda>c. [c]) s"
  by (induction s rule: code_points.induct) auto

lemma bump_keys: "fst ` set (bump kvs c) = insert c (fst ` set kvs)"
  by (induction kvs c rule: bump.induct) auto

lemma bump_distinct: "distinct (map fst kvs) \<Longrightarrow> distinct (map fst (bump kvs c))"
proof (induction kvs c rule: bump.induct)
  case (1 c)
  then show ?case by simp
next
  case (2 k n kvs c)
  then show ?case using bump_keys [of kvs c] by (auto simp: image_iff)
qed

lemma map_of_bump:
  "map_of (bump kvs c) k =
     (if k = c then Some (case map_of kvs c of None \<Rightarrow> 1 | Some n \<Rightarrow> n + 1)
      else map_of kvs k)"
  by (induction kvs c rule: bump.induct) auto

lemma foldl_bump:
  assumes "distinct (map fst acc)"
  shows "distinct (map fst (foldl bump acc xs))
     \<and> (\<forall>k. map_of (foldl bump acc xs) k =
           (if k \<in> set xs
            then Some (count_list xs k + (case map_of acc k of None \<Rightarrow> 0 | Some m \<Rightarrow> m))
            else map_of acc k))"
  using assms
proof (induction xs arbitrary: acc)
  case Nil
  then show ?case by simp
next
  case (Cons x xs)
  from Cons.IH [OF bump_distinct [OF Cons.prems, of x]]
  show ?case by (auto simp: map_of_bump split: option.splits)
qed

lemma foldl_entropy_step:
  "foldl (entropy_step len) e kvs
     = e - sum_list (map (\<lambda>kv. real (snd kv) / real len * log 2 (real (snd kv) / real len)) kvs)"
  by (induction kvs arbitrary: e) (auto simp: entropy_step_def Let_def)

lemma mset_for_in: "mset (for_in kvs) = mset kvs"
  by (simp add: for_in_def)

lemma sum_list_for_in: "sum_list (map h (for_in kvs)) = (sum_list (map h kvs) :: real)"
proof -
  have "mset (map h (for_in kvs)) = mset (map h kvs)"
    by (simp add: mset_for_in)
  then show ?thesis by (metis sum_mset_sum_list)
qed


lemma char_freq_table:
  "distinct (map fst (char_freq s))"
  "fst ` set (char_freq s) = set (code_points s)"
  "kv \<in> set (char_freq s) \<Longrightarrow> snd kv = count_list (code_points s) (fst kv)"
proof -
  have f: "distinct (map fst (char_freq s))
     \<and> (\<forall>k. map_of (char_freq s) k =
           (if k \<in> set (code_points s) then Some (count_list (code_points s) k) else None))"
    unfolding char_freq_def using foldl_bump [of "[]" "code_points s"] by simp
  then show d: "distinct (map fst (char_freq s))" by simp
  have "dom (map_of (char_freq s)) = set (code_points s)"
    using f by (auto simp: dom_def)
  then show "fst ` set (char_freq s) = set (code_points s)"
    by (simp add: dom_map_of_conv_image_fst)
  assume "kv \<in> set (char_freq s)"
  then have "(fst kv, snd kv) \<in> set (char_freq s)" by simp
  from map_of_is_SomeI [OF d this] f show "snd kv = count_list (code_points s) (fst kv)"
    by (auto split: if_splits)
qed

lemma char_freq_sum:
  "sum_list (map (\<lambda>kv. g (snd kv)) (char_freq s))
     = (\<Sum>k \<in> set (code_points s). (g (count_list (code_points s) k) :: real))"
proof -
  have d: "distinct (char_freq s)"
    using char_freq_table(1) [of s] by (simp add: distinct_map)
  have inj: "inj_on fst (set (char_freq s))"
    using char_freq_table(1) [of s] by (simp add: distinct_map)
  have "sum_list (map (\<lambda>kv. g (snd kv)) (char_freq s))
          = (\<Sum>kv \<in> set (char_freq s). g (snd kv))"
    using d by (simp add: sum_list_distinct_conv_sum_set)
  also have "\<dots> = (\<Sum>kv \<in> set (char_freq s). g (count_list (code_points s) (fst kv)))"
    by (rule sum.cong) (simp_all add: char_freq_table(3))
  also have "\<dots> = (\<Sum>k \<in> fst ` set (char_freq s). g (count_list (code_points s) k))"
    using inj by (simp add: sum.reindex)
  finally show ?thesis by (simp add: char_freq_table(2))
qed

lemma calculateEntropy_sum:
  assumes "s \<noteq> []"
  shows "calculateEntropy s =
     toFixed 3 (- (\<Sum>k \<in> set (code_points s).
                     real (count_list (code_points s) k) / real (length s)
                     * log 2 (real (count_list (code_points s) k) / real (length s))))"
  unfolding calculateEntropy_def Let_def foldl_entropy_step sum_list_for_in
    char_freq_sum [where g = "\<lambda>n. real n / real (length s) * log 2 (real n / real (length s))"]
  using assms by simp



lemma count_list_singletons: "count_list (map (\<lambda>c. [c]) s) [c] = count_list s c"
  by (induction s) auto

lemma calculateEntropy_pair_free:
  assumes "s \<noteq> []" and "pair_free s"
  shows "calculateEntropy s =
     toFixed 3 (- (\<Sum>c \<in> set s. real (count_list s c) / real (length s)
                                   * log 2 (real (count_list s c) / real (length s))))"
proof -
  have "inj_on (\<lambda>c. [c]) (set s)" by (simp add: inj_on_def)
  then show ?thesis
    unfolding calculateEntropy_sum [OF assms(1)] code_points_pair_free [OF assms(2)]
    by (simp add: sum.reindex count_list_singletons)
qed

lemma calculateEntropy_permutation:
  assumes "mset s = mset t" and "pair_free s" and "pair_free t"
  shows "calculateEntropy s = calculateEntropy t"
proof (cases "s = []")
  case True
  with assms(1) show ?thesis by simp
next
  case False
  with assms(1) have t: "t \<noteq> []" by auto
  have c: "count_list s c = count_list t c" for c
    using assms(1) by (metis count_mset)
  from assms(1) have "set s = set t" "length s = length t"
    by (auto dest: mset_eq_setD mset_eq_length)
  then show ?thesis
    unfolding calculateEntropy_pair_free [OF False assms(2)]
      calculateEntropy_pair_free [OF t assms(3)]
    by (simp add: c)
qed

lemma calculateEntropy_equal_frequency:
  assumes "s \<noteq> []" and "pair_free s" and "\<forall>c \<in> set s. count_list s c = k"
  shows "calculateEntropy s = toFixed 3 (log 2 (real (card (set s))))"
proof -
  let ?n = "card (set s)"
  have n: "0 < ?n" using assms(1) by (simp add: card_gt_0_iff)
  have "length s = (\<Sum>c \<in> set s. count_list s c)"
    by (simp add: sum_count_set)
  also have "\<dots> = ?n * k" using assms(3) by simp
  finally have len: "length s = ?n * k" .
  with assms(1) have k: "0 < k" by (cases k) auto
  have "(\<Sum>c \<in> set s. real (count_list s c) / real (length s)
                          * log 2 (real (count_list s c) / real (length s)))
        = (\<Sum>c \<in> set s. 1 / real ?n * log 2 (1 / real ?n))"
    using assms(3) k n by (intro sum.cong) (simp_all add: len)
  also have "\<dots> = log 2 (1 / real ?n)" using n assms(1) by simp
  also have "\<dots> = - log 2 (real ?n)" using n assms(1) by (simp add: log_divide)
  finally show ?thesis
    unfolding calculateEntropy_pair_free [OF assms(1,2)] by simp
qed


text \<open>
  C6. The code divides the count of each code point by \<open>str.length\<close>, which counts
  UTF-16 code units. On the one-character string U+1F600 (the code units D83D DE00) the
  only code point has probability 1/2 and the result is 0.5, not 0; on the two code units
  in the other order, which form no pair, the result is 1.
\<close>

theorem calculateEntropy_surrogate_pair:
  "calculateEntropy [0xD83D, 0xDE00] = 1 / 2 \<and> calculateEntropy [0xDE00, 0xD83D] = 1"
  by (simp add: calculateEntropy_def char_freq_def is_high_surrogate_def
      is_low_surrogate_def for_in_def is_index_key_def entropy_step_def toFixed_def
      log_divide)

section \<open>Log Normalizer: label, score and metadata\<close>

lemma normalizeDNSQuery_InrE:
  assumes "normalizeDNSQuery rt i data = Inr r"
  obtains q ip where
    "query r = q" "entropy r = calculateEntropy q" "length_f r = real (length q)"
    "location r = None"
    "sourceIp r = ip" "reputation_f r = Some (checkIpReputation ip)"
    "label_f r = Some (fst (classifyQuery (Math_random rt i)
        \<lparr>p_query = Some q, p_length = Some (real (length q)),
         p_entropy = Some (calculateEntropy q), p_threatScore = None\<rparr>))"
    "confidence r = Some (snd (classifyQuery (Math_random rt i)
        \<lparr>p_query = Some q, p_length = Some (real (length q)),
         p_entropy = Some (calculateEntropy q), p_threatScore = None\<rparr>))"
    "threatScore r = calculateThreatScore (r\<lparr>threatScore := 0\<rparr>)"
    "metadata r = Some (extract_metadata data)"
  using assms unfolding normalizeDNSQuery_def Let_def
  by (auto split: if_splits jsval.splits prod.splits)

lemma normalizeDNSQuery_query:
  assumes "normalizeDNSQuery rt i data = Inr r"
  shows "JStr (query r) =
           js_or (get_prop data ''query'') (js_or (get_prop data ''domain'')
             (js_or (get_prop data ''qname'') (js_or (get_prop data ''Question'') (JStr []))))"
  using assms unfolding normalizeDNSQuery_def Let_def
  by (auto split: if_splits jsval.splits prod.splits)

text \<open>
  The normaliser returns a record for every object whose fields are strings (or
  \<open>undefined\<close>), as the CSV and the free-text strategies build them.
\<close>

lemma js_or_string:
  assumes "(\<exists>s. a = JStr s) \<or> a = JUndefined" and "\<exists>s. b = JStr s"
  shows "\<exists>s. js_or a b = JStr s"
  using assms by (auto simp: js_or_def)

lemma get_prop_string:
  assumes "\<forall>v \<in> snd ` set m. (\<exists>s. v = JStr s) \<or> v = JUndefined"
  shows "(\<exists>s. get_prop (Object m) k = JStr s) \<or> get_prop (Object m) k = JUndefined"
proof (cases "map_of m (ascii k)")
  case None
  then show ?thesis by (simp add: get_prop_def)
next
  case (Some v)
  then have "v \<in> snd ` set m" by (auto dest!: map_of_SomeD intro: rev_image_eqI)
  with assms Some show ?thesis by (auto simp: get_prop_def)
qed


lemma normalizeDNSQuery_returns:
  assumes "\<forall>v \<in> snd ` set m. (\<exists>s. v = JStr s) \<or> v = JUndefined"
  shows "\<exists>r. normalizeDNSQuery rt i (Object m) = Inr r"
proof -
  note g = get_prop_string [OF assms]
  have "\<exists>q. js_or (get_prop (Object m) ''query'') (js_or (get_prop (Object m) ''domain'')
               (js_or (get_prop (Object m) ''qname'')
                  (js_or (get_prop (Object m) ''Question'') (JStr [])))) = JStr q"
    by (intro js_or_string g) simp
  then obtain q where q: "js_or (get_prop (Object m) ''query'') (js_or (get_prop (Object m) ''domain'')
               (js_or (get_prop (Object m) ''qname'')
                  (js_or (get_prop (Object m) ''Question'') (JStr [])))) = JStr q" ..
  have "\<exists>ip. js_or (get_prop (Object m) ''sourceIp'') (js_or (get_prop (Object m) ''src_ip'')
                 (js_or (get_prop (Object m) ''client_ip'')
                    (js_or (get_prop (Object m) ''SourceIP'')
                       (JStr (ascii ''192.168.1.1''))))) = JStr ip"
    by (intro js_or_string g) simp
  then obtain ip where ip: "js_or (get_prop (Object m) ''sourceIp'')
                 (js_or (get_prop (Object m) ''src_ip'')
                 (js_or (get_prop (Object m) ''client_ip'')
                    (js_or (get_prop (Object m) ''SourceIP'')
                       (JStr (ascii ''192.168.1.1''))))) = JStr ip" ..
  have "\<exists>ty. js_or (get_prop (Object m) ''type'') (js_or (get_prop (Object m) ''qtype'')
                 (js_or (get_prop (Object m) ''QueryType'') (JStr (ascii ''A'')))) = JStr ty"
    by (intro js_or_string g) simp
  then obtain ty where ty: "js_or (get_prop (Object m) ''type'')
                 (js_or (get_prop (Object m) ''qtype'')
                 (js_or (get_prop (Object m) ''QueryType'') (JStr (ascii ''A'')))) = JStr ty" ..
  show ?thesis
    unfolding normalizeDNSQuery_def Let_def by (simp add: q ip ty)
qed

lemma long_query_item_normalized:
  "normalizeDNSQuery sample_runtime 0 long_query_item =
     Inr \<lparr>id_f = JStr (ascii ''k3x9q2m7a''),
          timestamp = JStr (ascii ''2024-01-01T00:00:00.000Z''),
          sourceIp = ascii ''192.168.1.105'', query = replicate 50 0x61,
          type_f = ascii ''NULL'', responseCode = JStr (ascii ''NXDOMAIN''),
          length_f = 50, entropy = 0, location = None, lat = None, lng = None,
          label_f = Some Normal, confidence = Some (875 / 1000), threatScore = 65,
          reputation_f = Some MALICIOUS, isNew = None, metadata = Some []\<rparr>"
  unfolding normalizeDNSQuery_def long_query_item_def Let_def
    calculateThreatScore_factors threat_score_factors_def
  by (simp add: get_prop_def js_or_def ascii_def extract_metadata_def own_properties_def
      coreFields_def set_property_def classifyQuery_def sample_runtime_def ascii_upper_def
      checkIpReputation_def maliciousIps_def entropy_factor_def length_factor_def
      response_code_factor_def query_type_factor_def geolocation_factor_def
      reputation_factor_def double_sum_def Math_round_def calculateEntropy_replicate
      del: replicate.simps)

text \<open>
  C3. In \<open>normalizeDNSQuery\<close> the classifier runs on \<open>{query, length, entropy}\<close>, without
  a threat score, before the score is computed. So the label of every record produced is
  Tunneling exactly when its entropy exceeds 4.2 or its length exceeds 55, the confidence
  is the one of a zero score, and neither depends on the final threat score.
\<close>

theorem normalizeDNSQuery_label_ignores_score:
  assumes "normalizeDNSQuery rt i data = Inr r"
  shows "label_f r = Some (if entropy r > 42 / 10 \<or> length_f r > 55 then Tunneling else Normal)
    \<and> entropy r = calculateEntropy (query r) \<and> length_f r = real (length (query r))
    \<and> confidence r =
        Some (if entropy r > 42 / 10 \<or> length_f r > 55
              then min (99 / 100) (7 / 10 + Math_random rt i * (1 / 10))
              else min (99 / 100) (8 / 10 + Math_random rt i * (15 / 100)))"
  using assms by (elim normalizeDNSQuery_InrE) (simp add: classifyQuery_def Let_def)

theorem normalizeDNSQuery_label_ignores_score_witness:
  "map_sum id (\<lambda>r. (label_f r, threatScore r))
     (normalizeDNSQuery sample_runtime 0 long_query_item) = Inr (Some Normal, 65)"
  using normalizeDNSQuery_label_ignores_score [OF long_query_item_normalized]
  by (simp add: long_query_item_normalized)

lemma round_ge_5: "5 \<le> x \<Longrightarrow> 5 \<le> min 100 (Math_round x)"
  unfolding Math_round_def min_def by (auto simp: le_floor_iff)

text \<open>
  C10. Every record \<open>normalizeDNSQuery\<close> produces has a threat score of at least 5: the
  location is not set when the score is computed, so the geolocation factor is 5, and no
  factor is negative.
\<close>

theorem normalizeDNSQuery_threatScore_ge_5:
  assumes "normalizeDNSQuery rt i data = Inr r"
  shows "5 \<le> threatScore r \<and> threatScore r \<noteq> 0"
proof -
  from assms obtain r0 where ts: "threatScore r = calculateThreatScore r0"
    and loc: "location r0 = None"
    by (elim normalizeDNSQuery_InrE) auto
  have "5 \<le> double_sum
          [entropy_factor (fl (entropy r0)), length_factor (fl (length_f r0)),
           response_code_factor (responseCode r0), query_type_factor (type_f r0),
           geolocation_factor (location r0), reputation_factor (reputation_f r0)]"
    by (rule double_sum_ge_5) (simp_all add: factors_nonneg loc geolocation_factor_def)
  from round_ge_5 [OF this] have "5 \<le> threatScore r"
    unfolding ts calculateThreatScore_factors threat_score_factors_def .
  then show ?thesis by simp
qed

theorem normalizeDNSQuery_threatScore_ge_5_witness:
  "map_sum id threatScore (normalizeDNSQuery sample_runtime 0 long_query_item) = Inr 65"
  using normalizeDNSQuery_threatScore_ge_5 [OF long_query_item_normalized]
  by (simp add: long_query_item_normalized)

text \<open>
  The metadata of an object: every own property whose key is not in \<open>coreFields\<close> (and
  is not \<open>__proto__\<close>), with its value.
\<close>

lemma map_of_js_assign: "map_of (js_assign kvs k v) = (map_of kvs)(k \<mapsto> v)"
  by (induction kvs) (auto simp: fun_eq_iff)

lemma map_of_set_property:
  "map_of (set_property obj k v) k' =
     (if k' = k \<and> k \<noteq> ascii ''__proto__'' then Some v else map_of obj k')"
  by (simp add: set_property_def map_of_js_assign)

lemma map_of_copy_properties:
  assumes "distinct (map fst kvs)"
  shows "map_of (foldl (\<lambda>metadata (key, val).
              if key \<notin> set coreFields then set_property metadata key val else metadata)
            acc kvs) k
         = (if k \<notin> set coreFields \<and> k \<noteq> ascii ''__proto__'' \<and> k \<in> fst ` set kvs
            then map_of kvs k else map_of acc k)"
  using assms
proof (induction kvs arbitrary: acc)
  case Nil
  then show ?case by simp
next
  case (Cons kv kvs)
  obtain a b where kv: "kv = (a, b)" by (cases kv)
  from Cons.prems kv have d: "distinct (map fst kvs)" and na: "a \<notin> fst ` set kvs" by auto
  show ?case
    unfolding kv using na by (auto simp: Cons.IH [OF d] map_of_set_property)
qed

lemma map_of_own_properties_Object:
  "map_of (own_properties (Object m)) k = map_option Scalar (map_of m k)"
proof -
  have "map_of (map (\<lambda>k. (k, Scalar (the (map_of m k)))) ks) k
          = (if k \<in> set ks then Some (Scalar (the (map_of m k))) else None)" for ks
    by (induction ks) auto
  then show ?thesis
    by (cases "map_of m k") (auto simp: own_properties_def map_of_eq_None_iff dest: map_of_SomeD
          intro: rev_image_eqI)
qed

lemma distinct_own_properties_Object: "distinct (map fst (own_properties (Object m)))"
  by (simp add: own_properties_def comp_def)


lemma extract_metadata_Object:
  "map_of (extract_metadata (Object m)) k =
     (if k \<in> set coreFields \<or> k = ascii ''__proto__'' then None
      else map_option Scalar (map_of m k))"
proof -
  have "k \<in> fst ` set (own_properties (Object m)) \<longleftrightarrow> map_of m k \<noteq> None"
    using map_of_own_properties_Object [of m k]
    by (metis map_of_eq_None_iff option.map_disc_iff)
  then show ?thesis
    unfolding extract_metadata_def
    by (auto simp: map_of_copy_properties [OF distinct_own_properties_Object]
        map_of_own_properties_Object)
qed

text \<open>
  C5. The list \<open>coreFields\<close> lacks the capitalised aliases \<open>Question\<close>, \<open>SourceIP\<close>,
  \<open>Timestamp\<close>, \<open>QueryType\<close> and \<open>ResponseCode\<close>. For the field map
  \<open>{Question: "example.com"}\<close> the key \<open>Question\<close> is consumed as the query and is
  copied into the metadata as well.
\<close>

theorem normalizeDNSQuery_metadata_keeps_Question:
  "map_sum id (\<lambda>r. (query r, metadata r))
     (normalizeDNSQuery rt i (Object [(ascii ''Question'', JStr (ascii ''example.com''))]))
   = Inr (ascii ''example.com'',
          Some [(ascii ''Question'', Scalar (JStr (ascii ''example.com'')))])"
  by (simp add: normalizeDNSQuery_def Let_def get_prop_def js_or_def ascii_def
      extract_metadata_def own_properties_def coreFields_def set_property_def)

section \<open>Multi-Format Parser: records with an empty query\<close>

lemma normalizeDNSQuery_names_query:
  assumes "normalizeDNSQuery rt i data = Inr r"
  shows "query r = [] \<longleftrightarrow> \<not> names_query data"
proof -
  have "query r = [] \<longleftrightarrow> \<not> truthy (JStr (query r))" by simp
  also have "\<dots> \<longleftrightarrow> \<not> names_query data"
    unfolding normalizeDNSQuery_query [OF assms] by (simp add: js_or_def names_query_def)
  finally show ?thesis .
qed

lemma collect_Inr: "collect xs = Inr ys \<Longrightarrow> xs = map Inr ys"
  by (induction xs arbitrary: ys) (auto split: sum.splits)

text \<open>
  Where the records of a run of calls come from: each is in the result of one call, made
  on one element of the list; and the result of every call is among them.
\<close>

lemma enumerate_member:
  assumes "x \<in> set xs"
  shows "\<exists>i. (i, x) \<in> set (enumerate 0 xs)"
proof -
  from assms obtain i where "i < length xs" and "xs ! i = x"
    by (auto simp: in_set_conv_nth)
  then have "(i, x) \<in> set (enumerate 0 xs)" by (simp add: in_set_enumerate_eq)
  then show ?thesis ..
qed

lemma collect_call:
  assumes "collect (map (\<lambda>(i, x). f i x) (enumerate 0 xs)) = Inr ys"
    and "(i, x) \<in> set (enumerate 0 xs)"
  shows "\<exists>y \<in> set ys. f i x = Inr y"
proof -
  from assms(2) have "f i x \<in> set (map (\<lambda>(i, x). f i x) (enumerate 0 xs))" by force
  with collect_Inr [OF assms(1)] show ?thesis by auto
qed

lemma collect_concat_member:
  assumes "collect (map (\<lambda>(i, x). f i x) (enumerate 0 xs)) = Inr rss"
    and "r \<in> set (concat rss)"
  obtains i x rs where "(i, x) \<in> set (enumerate 0 xs)" and "x \<in> set xs"
    and "f i x = Inr rs" and "r \<in> set rs"
proof -
  from assms(2) obtain rs where rs: "rs \<in> set rss" "r \<in> set rs" by auto
  from collect_Inr [OF assms(1)] rs(1)
  have "Inr rs \<in> set (map (\<lambda>(i, x). f i x) (enumerate 0 xs))" by simp
  then obtain i x where "(i, x) \<in> set (enumerate 0 xs)" and "f i x = Inr rs" by auto
  moreover from this have "x \<in> set xs" by (auto simp: in_set_enumerate_eq)
  ultimately show ?thesis using rs(2) that by blast
qed

lemma collect_member:
  assumes "collect (map (\<lambda>(i, x). f i x) (enumerate 0 xs)) = Inr rs"
    and "r \<in> set rs"
  obtains i x where "(i, x) \<in> set (enumerate 0 xs)" and "x \<in> set xs" and "f i x = Inr r"
proof -
  from collect_Inr [OF assms(1)] assms(2)
  have "Inr r \<in> set (map (\<lambda>(i, x). f i x) (enumerate 0 xs))" by simp
  then obtain i x where "(i, x) \<in> set (enumerate 0 xs)" and "f i x = Inr r" by auto
  moreover from this have "x \<in> set xs" by (auto simp: in_set_enumerate_eq)
  ultimately show ?thesis using that by blast
qed

lemma whole_document_member:
  assumes "whole_document rt trimmed = Some rs" and "r \<in> set rs"
  obtains doc i item where "JSON_parse rt trimmed = Some doc" and "item \<in> set (json_items doc)"
    and "normalizeDNSQuery rt i item = Inr r"
proof -
  from assms(1) obtain doc where doc: "JSON_parse rt trimmed = Some doc"
    and c: "collect (map (\<lambda>(i, item). normalizeDNSQuery rt i item)
                       (enumerate 0 (json_items doc))) = Inr rs"
    unfolding whole_document_def Let_def by (auto split: option.splits sum.splits)
  from collect_member [OF c assms(2)] doc that show ?thesis by blast
qed

lemma csv_line_member:
  assumes "csv_line rt hs n line = Inr rs" and "r \<in> set rs"
  shows "normalizeDNSQuery rt n (Object (csv_object hs (csv_parts line))) = Inr r"
    and "truthy (get_prop (Object (csv_object hs (csv_parts line))) ''query'')
         \<or> truthy (get_prop (Object (csv_object hs (csv_parts line))) ''domain'')
         \<or> 3 \<le> length (csv_parts line)"
  using assms unfolding csv_line_def Let_def by (auto split: if_splits sum.splits)

lemma csv_records_member:
  assumes "csv_records rt lines firstLine = Inr rs" and "r \<in> set rs"
  obtains n line rs' where "line \<in> set (csv_dataLines rt lines firstLine)"
    and "csv_line rt (csv_currentHeaders rt firstLine) n line = Inr rs'" and "r \<in> set rs'"
proof -
  from assms(1) obtain rss where
    c: "collect (map (\<lambda>(n, line). csv_line rt (csv_currentHeaders rt firstLine) n line)
                   (enumerate 0 (csv_dataLines rt lines firstLine))) = Inr rss"
    and rs: "rs = concat rss"
    unfolding csv_records_def Let_def by (auto split: sum.splits)
  from assms(2) rs have "r \<in> set (concat rss)" by simp
  from collect_concat_member [OF c this] that show ?thesis by blast
qed

lemma free_text_line_query:
  assumes "free_text_line rt i line = Inr rs" and "r \<in> set rs"
  shows "query r \<noteq> []"
proof -
  let ?q = "find_str is_name_token (split_ws line)"
  from assms have t: "truthy ?q"
    unfolding free_text_line_def Let_def by (auto split: if_splits)
  from assms t obtain obj where
    n: "normalizeDNSQuery rt i (Object ((ascii ''query'', ?q) # obj)) = Inr r"
    unfolding free_text_line_def Let_def by (auto split: if_splits list.splits sum.splits)
  have "names_query (Object ((ascii ''query'', ?q) # obj))"
    using t by (simp add: names_query_def get_prop_def)
  with normalizeDNSQuery_names_query [OF n] show ?thesis by simp
qed

lemma line_records_member:
  assumes "line_records rt i line = Inr rs" and "r \<in> set rs"
  shows "(\<exists>d. JSON_parse rt line = Some d \<and> normalizeDNSQuery rt i d = Inr r)
         \<or> free_text_line rt i line = Inr rs"
  using assms unfolding line_records_def by (auto split: option.splits sum.splits)

lemma line_by_line_member:
  assumes "line_by_line rt lines = Inr rs" and "r \<in> set rs"
  obtains i line rs' where "(i, line) \<in> set (enumerate 0 lines)"
    and "line_records rt i line = Inr rs'" and "r \<in> set rs'"
proof -
  from assms(1) obtain rss where
    c: "collect (map (\<lambda>(i, line). line_records rt i line) (enumerate 0 lines)) = Inr rss"
    and rs: "rs = concat rss"
    unfolding line_by_line_def by (auto split: sum.splits)
  from assms(2) rs have "r \<in> set (concat rss)" by simp
  from collect_concat_member [OF c this] that show ?thesis by blast
qed

lemma free_text_line_no_name:
  assumes "\<not> list_ex is_name_token (split_ws line)"
  shows "free_text_line rt i line = Inr []"
proof -
  from assms have "find is_name_token (split_ws line) = None"
    by (simp add: find_None_iff list_ex_iff)
  then show ?thesis by (simp add: free_text_line_def find_str_def Let_def)
qed

lemma name_token_not_Nil: "is_name_token p \<Longrightarrow> p \<noteq> []"
  by (auto simp: is_name_token_def ascii_def)

lemma free_text_line_name:
  assumes "list_ex is_name_token (split_ws line)"
  shows "\<exists>r. free_text_line rt i line = Inr [r]
             \<and> find is_name_token (split_ws line) = Some (query r) \<and> query r \<noteq> []"
proof -
  from assms obtain p where p: "find is_name_token (split_ws line) = Some p"
    by (cases "find is_name_token (split_ws line)") (auto simp: find_None_iff list_ex_iff)
  then have "is_name_token p" by (auto simp: find_Some_iff)
  then have ne: "p \<noteq> []" by (rule name_token_not_Nil)
  from p obtain p0 ps where parts: "split_ws line = p0 # ps"
    by (cases "split_ws line") auto
  let ?ip = "find_str ipv4_match (p0 # ps)"
  let ?ty = "js_or (find_str (\<lambda>p. toUpperCase rt p \<in> set typeMnemonics) (p0 # ps))
               (JStr (ascii ''A''))"
  let ?ts = "if length p0 > 10 then JStr p0 else JUndefined"
  let ?obj = "[(ascii ''query'', JStr p), (ascii ''sourceIp'', ?ip), (ascii ''type'', ?ty),
               (ascii ''timestamp'', ?ts)]"
  have "\<forall>v \<in> snd ` set ?obj. (\<exists>s. v = JStr s) \<or> v = JUndefined"
    by (auto simp: find_str_def js_or_def split: option.splits)
  from normalizeDNSQuery_returns [OF this] obtain r where
    r: "normalizeDNSQuery rt i (Object ?obj) = Inr r" by blast
  have "get_prop (Object ?obj) ''query'' = JStr p" by (simp add: get_prop_def)
  with normalizeDNSQuery_query [OF r] ne have q: "query r = p" by (simp add: js_or_def)
  have "free_text_line rt i line = Inr [r]"
    unfolding free_text_line_def Let_def parts using p ne r
    by (simp add: find_str_def parts)
  with p q ne show ?thesis by simp
qed

lemma js_assign_member:
  "kv \<in> set (js_assign kvs k v) \<Longrightarrow> kv \<in> set kvs \<or> kv = (k, v)"
  by (induction kvs k v rule: js_assign.induct) (auto split: if_splits)

lemma csv_object_strings:
  "\<forall>v \<in> snd ` set (csv_object hs parts). (\<exists>s. v = JStr s) \<or> v = JUndefined"
proof -
  have "\<forall>kv \<in> set (foldl (\<lambda>obj (i, h).
              if i < length parts then set_property obj h (JStr (parts ! i)) else obj)
            acc ihs). \<exists>s. snd kv = JStr s"
    if "\<forall>kv \<in> set acc. \<exists>s. snd kv = JStr s"
    for acc :: fieldmap and ihs
    using that
  proof (induction ihs arbitrary: acc)
    case Nil
    then show ?case by simp
  next
    case (Cons ih ihs)
    obtain i h where ih: "ih = (i, h)" by (cases ih)
    have "\<forall>kv \<in> set (if i < length parts then set_property acc h (JStr (parts ! i))
                        else acc). \<exists>s. snd kv = JStr s"
      using Cons.prems by (auto simp: set_property_def dest!: js_assign_member)
    from Cons.IH [OF this] show ?case by (simp add: ih)
  qed
  from this [of "[]"] show ?thesis by (auto simp: csv_object_def)
qed

lemma csv_line_keeps:
  assumes "3 \<le> length (csv_parts line)"
  shows "\<exists>r. csv_line rt hs n line = Inr [r]
             \<and> (query r = [] \<longleftrightarrow> \<not> names_query (Object (csv_object hs (csv_parts line))))"
proof -
  from normalizeDNSQuery_returns [OF csv_object_strings] obtain r where
    r: "normalizeDNSQuery rt n (Object (csv_object hs (csv_parts line))) = Inr r" by blast
  with assms have "csv_line rt hs n line = Inr [r]"
    by (simp add: csv_line_def Let_def)
  with normalizeDNSQuery_names_query [OF r] show ?thesis by simp
qed

lemma csv_line_drops:
  assumes "length (csv_parts line) < 3"
    and "\<not> truthy (get_prop (Object (csv_object hs (csv_parts line))) ''query'')"
    and "\<not> truthy (get_prop (Object (csv_object hs (csv_parts line))) ''domain'')"
  shows "csv_line rt hs n line = Inr []"
  using assms by (simp add: csv_line_def Let_def)

text \<open>
  The three strategies, one by one: the records all have a query exactly when every value
  the strategy hands to the normaliser names one.
\<close>

lemma whole_document_query:
  assumes w: "whole_document rt trimmed = Some rs"
  shows "(\<forall>r \<in> set rs. query r \<noteq> []) \<longleftrightarrow>
         (\<forall>doc. JSON_parse rt trimmed = Some doc
            \<longrightarrow> (\<forall>item \<in> set (json_items doc). names_query item))"
proof
  assume a: "\<forall>r \<in> set rs. query r \<noteq> []"
  show "\<forall>doc. JSON_parse rt trimmed = Some doc
          \<longrightarrow> (\<forall>item \<in> set (json_items doc). names_query item)"
  proof (intro allI impI ballI)
    fix doc item
    assume doc: "JSON_parse rt trimmed = Some doc" and item: "item \<in> set (json_items doc)"
    from w doc have c: "collect (map (\<lambda>(i, item). normalizeDNSQuery rt i item)
                                  (enumerate 0 (json_items doc))) = Inr rs"
      unfolding whole_document_def Let_def by (auto split: sum.splits)
    from enumerate_member [OF item] obtain i where
      "(i, item) \<in> set (enumerate 0 (json_items doc))" ..
    from collect_call [OF c this] obtain r where r: "r \<in> set rs"
      and n: "normalizeDNSQuery rt i item = Inr r" by blast
    from a r normalizeDNSQuery_names_query [OF n] show "names_query item" by auto
  qed
next
  assume b: "\<forall>doc. JSON_parse rt trimmed = Some doc
               \<longrightarrow> (\<forall>item \<in> set (json_items doc). names_query item)"
  show "\<forall>r \<in> set rs. query r \<noteq> []"
  proof
    fix r
    assume "r \<in> set rs"
    from whole_document_member [OF w this] obtain doc i item where
      "JSON_parse rt trimmed = Some doc" and "item \<in> set (json_items doc)"
      and n: "normalizeDNSQuery rt i item = Inr r" by blast
    with b have "names_query item" by blast
    with normalizeDNSQuery_names_query [OF n] show "query r \<noteq> []" by simp
  qed
qed

lemma csv_records_query:
  assumes cr: "csv_records rt lines firstLine = Inr rs"
  shows "(\<forall>r \<in> set rs. query r \<noteq> []) \<longleftrightarrow>
         (\<forall>line \<in> set (csv_dataLines rt lines firstLine).
            3 \<le> length (csv_parts line) \<longrightarrow>
            names_query (Object (csv_object (csv_currentHeaders rt firstLine)
                                   (csv_parts line))))"
proof
  assume a: "\<forall>r \<in> set rs. query r \<noteq> []"
  from cr obtain rss where
    c: "collect (map (\<lambda>(n, line). csv_line rt (csv_currentHeaders rt firstLine) n line)
                   (enumerate 0 (csv_dataLines rt lines firstLine))) = Inr rss"
    and rs: "rs = concat rss"
    unfolding csv_records_def Let_def by (auto split: sum.splits)
  show "\<forall>line \<in> set (csv_dataLines rt lines firstLine).
          3 \<le> length (csv_parts line) \<longrightarrow>
          names_query (Object (csv_object (csv_currentHeaders rt firstLine) (csv_parts line)))"
  proof (intro ballI impI)
    fix line
    assume line: "line \<in> set (csv_dataLines rt lines firstLine)"
      and k: "3 \<le> length (csv_parts line)"
    let ?obj = "Object (csv_object (csv_currentHeaders rt firstLine) (csv_parts line))"
    from enumerate_member [OF line] obtain n where
      n: "(n, line) \<in> set (enumerate 0 (csv_dataLines rt lines firstLine))" ..
    from collect_call [OF c n] obtain rs' where rs': "rs' \<in> set rss"
      and cl: "csv_line rt (csv_currentHeaders rt firstLine) n line = Inr rs'" by blast
    from csv_line_keeps [OF k, of rt "csv_currentHeaders rt firstLine" n] cl
    obtain r where r: "rs' = [r]" and q: "query r = [] \<longleftrightarrow> \<not> names_query ?obj" by auto
    from rs' have "set rs' \<subseteq> set (concat rss)" by auto
    with r rs have "r \<in> set rs" by simp
    with a q show "names_query ?obj" by auto
  qed
next
  assume b: "\<forall>line \<in> set (csv_dataLines rt lines firstLine).
               3 \<le> length (csv_parts line) \<longrightarrow>
               names_query (Object (csv_object (csv_currentHeaders rt firstLine)
                                      (csv_parts line)))"
  show "\<forall>r \<in> set rs. query r \<noteq> []"
  proof
    fix r
    assume "r \<in> set rs"
    from csv_records_member [OF cr this] obtain n line rs' where
      line: "line \<in> set (csv_dataLines rt lines firstLine)"
      and cl: "csv_line rt (csv_currentHeaders rt firstLine) n line = Inr rs'"
      and r': "r \<in> set rs'"
      by blast
    let ?obj = "Object (csv_object (csv_currentHeaders rt firstLine) (csv_parts line))"
    from csv_line_member [OF cl r'] have n: "normalizeDNSQuery rt n ?obj = Inr r"
      and k: "truthy (get_prop ?obj ''query'') \<or> truthy (get_prop ?obj ''domain'')
              \<or> 3 \<le> length (csv_parts line)"
      by auto
    from b line have "3 \<le> length (csv_parts line) \<longrightarrow> names_query ?obj" by simp
    with k have "names_query ?obj" by (auto simp: names_query_def)
    with normalizeDNSQuery_names_query [OF n] show "query r \<noteq> []" by simp
  qed
qed

lemma line_by_line_query:
  assumes lb: "line_by_line rt lines = Inr rs"
  shows "(\<forall>r \<in> set rs. query r \<noteq> []) \<longleftrightarrow>
         (\<forall>(i, line) \<in> set (enumerate 0 lines).
            \<forall>d r. JSON_parse rt line = Some d \<longrightarrow> normalizeDNSQuery rt i d = Inr r
                  \<longrightarrow> names_query d)"
proof
  assume a: "\<forall>r \<in> set rs. query r \<noteq> []"
  from lb obtain rss where
    c: "collect (map (\<lambda>(i, line). line_records rt i line) (enumerate 0 lines)) = Inr rss"
    and rs: "rs = concat rss"
    unfolding line_by_line_def by (auto split: sum.splits)
  have "names_query d"
    if il: "(i, line) \<in> set (enumerate 0 lines)" and d: "JSON_parse rt line = Some d"
      and n: "normalizeDNSQuery rt i d = Inr r" for i line d r
  proof -
    from d n have "line_records rt i line = Inr [r]" by (simp add: line_records_def)
    with collect_call [OF c il] have "[r] \<in> set rss" by auto
    then have "r \<in> set (concat rss)" by (auto intro!: bexI [of _ "[r]"])
    with rs have "r \<in> set rs" by simp
    with a normalizeDNSQuery_names_query [OF n] show ?thesis by auto
  qed
  then show "\<forall>(i, line) \<in> set (enumerate 0 lines).
          \<forall>d r. JSON_parse rt line = Some d \<longrightarrow> normalizeDNSQuery rt i d = Inr r
                \<longrightarrow> names_query d"
    by blast
next
  assume b: "\<forall>(i, line) \<in> set (enumerate 0 lines).
          \<forall>d r. JSON_parse rt line = Some d \<longrightarrow> normalizeDNSQuery rt i d = Inr r
                \<longrightarrow> names_query d"
  show "\<forall>r \<in> set rs. query r \<noteq> []"
  proof
    fix r
    assume "r \<in> set rs"
    from line_by_line_member [OF lb this] obtain i line rs' where
      il: "(i, line) \<in> set (enumerate 0 lines)" and lr: "line_records rt i line = Inr rs'"
      and r': "r \<in> set rs'"
      by blast
    from line_records_member [OF lr r'] show "query r \<noteq> []"
    proof
      assume "\<exists>d. JSON_parse rt line = Some d \<and> normalizeDNSQuery rt i d = Inr r"
      then obtain d where d: "JSON_parse rt line = Some d"
        and n: "normalizeDNSQuery rt i d = Inr r" by blast
      from b il d n have "names_query d" by blast
      with normalizeDNSQuery_names_query [OF n] show ?thesis by simp
    next
      assume "free_text_line rt i line = Inr rs'"
      from free_text_line_query [OF this r'] show ?thesis .
    qed
  qed
qed

lemma parseLogContent_query:
  assumes p: "parseLogContent rt content = Inr rs"
  shows "(\<forall>r \<in> set rs. query r \<noteq> []) \<longleftrightarrow>
         (trim content = [] \<or>
          (case whole_document rt (trim content) of
             Some _ \<Rightarrow>
               \<forall>doc. JSON_parse rt (trim content) = Some doc
                 \<longrightarrow> (\<forall>item \<in> set (json_items doc). names_query item)
           | None \<Rightarrow>
               (case content_lines (trim content) of
                  [] \<Rightarrow> True
                | firstLine # _ \<Rightarrow>
                    if isCSV firstLine
                       \<and> csv_records rt (content_lines (trim content)) firstLine \<noteq> Inr []
                    then \<forall>line \<in> set (csv_dataLines rt (content_lines (trim content))
                                          firstLine).
                           3 \<le> length (csv_parts line) \<longrightarrow>
                           names_query (Object (csv_object (csv_currentHeaders rt firstLine)
                                                  (csv_parts line)))
                    else \<forall>(i, line) \<in> set (enumerate 0 (content_lines (trim content))).
                           \<forall>d r. JSON_parse rt line = Some d
                             \<longrightarrow> normalizeDNSQuery rt i d = Inr r \<longrightarrow> names_query d)))"
proof (cases "trim content = []")
  case True
  with p have "rs = []" by (simp add: parseLogContent_def Let_def)
  with True show ?thesis by simp
next
  case ne: False
  let ?t = "trim content"
  let ?lines = "content_lines ?t"
  show ?thesis
  proof (cases "whole_document rt ?t")
    case (Some rs')
    with p ne have "rs' = rs" by (simp add: parseLogContent_def Let_def)
    with Some have w: "whole_document rt ?t = Some rs" by simp
    from whole_document_query [OF w] ne show ?thesis by (simp add: w)
  next
    case None
    with p ne obtain firstLine rest where l: "?lines = firstLine # rest"
      by (cases ?lines) (auto simp: parseLogContent_def Let_def)
    show ?thesis
    proof (cases "isCSV firstLine \<and> csv_records rt ?lines firstLine \<noteq> Inr []")
      case True
      with p ne None l have cr: "csv_records rt ?lines firstLine = Inr rs"
        by (auto simp: parseLogContent_def Let_def split: if_splits sum.splits)
      from csv_records_query [OF cr] ne None True show ?thesis by (simp add: l)
    next
      case False
      with p ne None l have lb: "line_by_line rt ?lines = Inr rs"
        by (auto simp: parseLogContent_def Let_def split: if_splits sum.splits)
      from False have csv: "\<not> (isCSV firstLine
                           \<and> csv_records rt (firstLine # rest) firstLine \<noteq> Inr [])"
        unfolding l .
      from line_by_line_query [OF lb] ne show ?thesis
        unfolding None l option.case list.case if_not_P [OF csv] by simp
    qed
  qed
qed

lemma csv_row_trim: "trim (ascii ''x,y,'') = ascii ''x,y,''"
  by (simp add: trim_def is_js_space_def ascii_def)

lemma csv_row_lines: "content_lines (ascii ''x,y,'') = [ascii ''x,y,'']"
  by (simp add: content_lines_def trim_def is_js_space_def ascii_def)

lemma csv_row_isCSV: "isCSV (ascii ''x,y,'')"
  by (simp add: isCSV_def ascii_def)

lemma csv_row_parts: "csv_parts (ascii ''x,y,'') = [ascii ''x'', ascii ''y'', []]"
  by (simp add: csv_parts_def strip_quotes_def is_quote_def trim_def is_js_space_def ascii_def)

lemma csv_row_no_headers: "\<not> csv_hasHeaders sample_runtime (ascii ''x,y,'')"
  unfolding csv_hasHeaders_def csv_row_parts
  by (simp add: sample_runtime_def likelyHeaders_def ascii_lower_def ascii_def)

lemma csv_row_object:
  "csv_object defaultHeaders [ascii ''x'', ascii ''y'', []]
     = [(ascii ''timestamp'', JStr (ascii ''x'')), (ascii ''sourceIp'', JStr (ascii ''y'')),
        (ascii ''query'', JStr [])]"
  by (simp add: csv_object_def defaultHeaders_def enumerate_eq_zip set_property_def ascii_def)

lemma csv_row_names_no_query:
  "\<not> names_query (Object [(ascii ''timestamp'', JStr (ascii ''x'')),
                           (ascii ''sourceIp'', JStr (ascii ''y'')),
                           (ascii ''query'', JStr [])])"
  by (simp add: names_query_def get_prop_def ascii_def)

lemma csv_row_line:
  "map_sum id (map query) (csv_line rt defaultHeaders n (ascii ''x,y,'')) = Inr [[]]"
proof -
  have "3 \<le> length (csv_parts (ascii ''x,y,''))" by (simp add: csv_row_parts)
  from csv_line_keeps [OF this, of rt defaultHeaders n] show ?thesis
    unfolding csv_row_parts csv_row_object using csv_row_names_no_query by auto
qed

lemma csv_row_records:
  "map_sum id (map query)
     (csv_records sample_runtime [ascii ''x,y,''] (ascii ''x,y,'')) = Inr [[]]"
proof -
  obtain r where r: "csv_line sample_runtime defaultHeaders 0 (ascii ''x,y,'') = Inr [r]"
    and q: "query r = []"
    using csv_row_line [of sample_runtime 0]
    by (auto simp: map_sum_def split: sum.splits)
  show ?thesis
    unfolding csv_records_def csv_dataLines_def csv_currentHeaders_def Let_def
    using csv_row_no_headers by (simp add: enumerate_eq_zip r q)
qed

lemma csv_row_parsed:
  "map_sum id (map query) (parseLogContent sample_runtime (ascii ''x,y,'')) = Inr [[]]"
proof -
  have w: "whole_document sample_runtime (ascii ''x,y,'') = None"
    by (simp add: whole_document_def sample_runtime_def)
  obtain rs where
    rs: "csv_records sample_runtime [ascii ''x,y,''] (ascii ''x,y,'') = Inr rs"
    and q: "map query rs = [[]]"
    using csv_row_records by (auto simp: map_sum_def split: sum.splits)
  have ne: "ascii ''x,y,'' \<noteq> []" by (simp add: ascii_def)
  show ?thesis
    unfolding parseLogContent_def csv_row_trim Let_def w csv_row_lines
    using csv_row_isCSV ne q by (auto simp: rs)
qed

lemma empty_object_normalized:
  "map_sum id query (normalizeDNSQuery rt i (Object [])) = Inr []"
  by (simp add: normalizeDNSQuery_def Let_def get_prop_def js_or_def ascii_def)

lemma braces_parsed:
  "map_sum id (map query) (parseLogContent braces_runtime (ascii ''{}'')) = Inr [[]]"
proof -
  have t: "trim (ascii ''{}'') = ascii ''{}''"
    by (simp add: trim_def is_js_space_def ascii_def)
  have j: "JSON_parse braces_runtime (ascii ''{}'') = Some (Object [])"
    by (simp add: braces_runtime_def sample_runtime_def)
  obtain r where r: "normalizeDNSQuery braces_runtime 0 (Object []) = Inr r"
    and q: "query r = []"
    using empty_object_normalized [of braces_runtime 0]
    by (auto simp: map_sum_def split: sum.splits)
  have w: "whole_document braces_runtime (ascii ''{}'') = Some [r]"
    by (simp add: whole_document_def j json_items_def Let_def enumerate_eq_zip r)
  have ne: "ascii ''{}'' \<noteq> []" by (simp add: ascii_def)
  show ?thesis
    unfolding parseLogContent_def t Let_def w using ne q by simp
qed

lemma csv_sample_trim: "trim csv_sample = csv_sample"
  by (simp add: csv_sample_def trim_def is_js_space_def ascii_def)

lemma csv_sample_lines:
  "content_lines csv_sample
     = [ascii ''query,sourceIp,type'', ascii ''evil.tunnel.net,1.2.3.4,TXT'']"
  by (simp add: csv_sample_def content_lines_def trim_def is_js_space_def ascii_def)

lemma csv_sample_isCSV: "isCSV (ascii ''query,sourceIp,type'')"
  by (simp add: isCSV_def ascii_def)

lemma csv_sample_header_parts:
  "csv_parts (ascii ''query,sourceIp,type'')
     = [ascii ''query'', ascii ''sourceIp'', ascii ''type'']"
  by (simp add: csv_parts_def strip_quotes_def is_quote_def trim_def is_js_space_def ascii_def)

lemma csv_sample_hasHeaders: "csv_hasHeaders sample_runtime (ascii ''query,sourceIp,type'')"
  unfolding csv_hasHeaders_def csv_sample_header_parts
  by (simp add: sample_runtime_def likelyHeaders_def ascii_lower_def ascii_def)

lemma csv_sample_row_parts:
  "csv_parts (ascii ''evil.tunnel.net,1.2.3.4,TXT'')
     = [ascii ''evil.tunnel.net'', ascii ''1.2.3.4'', ascii ''TXT'']"
  by (simp add: csv_parts_def strip_quotes_def is_quote_def trim_def is_js_space_def ascii_def)

lemma csv_sample_object:
  "csv_object [ascii ''query'', ascii ''sourceIp'', ascii ''type'']
     [ascii ''evil.tunnel.net'', ascii ''1.2.3.4'', ascii ''TXT'']
   = [(ascii ''query'', JStr (ascii ''evil.tunnel.net'')),
      (ascii ''sourceIp'', JStr (ascii ''1.2.3.4'')),
      (ascii ''type'', JStr (ascii ''TXT''))]"
  by (simp add: csv_object_def enumerate_eq_zip set_property_def ascii_def)

lemma csv_sample_names_query:
  "names_query (Object [(ascii ''query'', JStr (ascii ''evil.tunnel.net'')),
                        (ascii ''sourceIp'', JStr (ascii ''1.2.3.4'')),
                        (ascii ''type'', JStr (ascii ''TXT''))])"
  by (simp add: names_query_def get_prop_def ascii_def)

lemma csv_sample_normalized:
  "map_sum id (\<lambda>r. (query r, sourceIp r, type_f r))
     (normalizeDNSQuery sample_runtime n
        (Object [(ascii ''query'', JStr (ascii ''evil.tunnel.net'')),
                 (ascii ''sourceIp'', JStr (ascii ''1.2.3.4'')),
                 (ascii ''type'', JStr (ascii ''TXT''))]))
   = Inr (ascii ''evil.tunnel.net'', ascii ''1.2.3.4'', ascii ''TXT'')"
  by (simp add: normalizeDNSQuery_def Let_def get_prop_def js_or_def ascii_def
      sample_runtime_def ascii_upper_def)

lemma csv_sample_records:
  "map_sum id (map (\<lambda>r. (query r, sourceIp r, type_f r)))
     (csv_records sample_runtime
        [ascii ''query,sourceIp,type'', ascii ''evil.tunnel.net,1.2.3.4,TXT'']
        (ascii ''query,sourceIp,type''))
   = Inr [(ascii ''evil.tunnel.net'', ascii ''1.2.3.4'', ascii ''TXT'')]"
proof -
  let ?h = "ascii ''query,sourceIp,type''"
  let ?row = "ascii ''evil.tunnel.net,1.2.3.4,TXT''"
  obtain r where
    r: "normalizeDNSQuery sample_runtime 0
          (Object [(ascii ''query'', JStr (ascii ''evil.tunnel.net'')),
                   (ascii ''sourceIp'', JStr (ascii ''1.2.3.4'')),
                   (ascii ''type'', JStr (ascii ''TXT''))]) = Inr r"
    and q: "query r = ascii ''evil.tunnel.net''" "sourceIp r = ascii ''1.2.3.4''"
      "type_f r = ascii ''TXT''"
    using csv_sample_normalized [of 0] by (auto simp: map_sum_def split: sum.splits)
  have line: "csv_line sample_runtime [ascii ''query'', ascii ''sourceIp'', ascii ''type'']
                0 ?row = Inr [r]"
    unfolding csv_line_def csv_sample_row_parts csv_sample_object Let_def
    by (simp add: r)
  have "csv_records sample_runtime [?h, ?row] ?h = Inr [r]"
    unfolding csv_records_def csv_dataLines_def csv_currentHeaders_def Let_def
      csv_sample_header_parts
    using csv_sample_hasHeaders by (simp add: enumerate_eq_zip line)
  then show ?thesis by (simp add: q)
qed

lemma csv_sample_whole_document: "whole_document sample_runtime csv_sample = None"
  by (simp add: whole_document_def sample_runtime_def)

lemma csv_sample_not_Nil: "csv_sample \<noteq> []"
  by (simp add: csv_sample_def)

lemma csv_sample_parsed:
  "map_sum id (map (\<lambda>r. (query r, sourceIp r, type_f r)))
     (parseLogContent sample_runtime csv_sample)
   = Inr [(ascii ''evil.tunnel.net'', ascii ''1.2.3.4'', ascii ''TXT'')]"
proof -
  let ?h = "ascii ''query,sourceIp,type''"
  let ?row = "ascii ''evil.tunnel.net,1.2.3.4,TXT''"
  obtain rs where recs: "csv_records sample_runtime [?h, ?row] ?h = Inr rs"
    and q: "map (\<lambda>r. (query r, sourceIp r, type_f r)) rs
              = [(ascii ''evil.tunnel.net'', ascii ''1.2.3.4'', ascii ''TXT'')]"
    using csv_sample_records by (auto simp: map_sum_def split: sum.splits)
  from q have "rs \<noteq> []" by auto
  then show ?thesis
    unfolding parseLogContent_def csv_sample_trim Let_def csv_sample_whole_document
      csv_sample_lines
    using csv_sample_isCSV csv_sample_not_Nil by (simp add: recs q)
qed

lemma csv_short_row_parts: "csv_parts (ascii ''a,b'') = [ascii ''a'', ascii ''b'']"
  by (simp add: csv_parts_def strip_quotes_def is_quote_def trim_def is_js_space_def ascii_def)

lemma csv_short_row_object:
  "csv_object defaultHeaders [ascii ''a'', ascii ''b'']
     = [(ascii ''timestamp'', JStr (ascii ''a'')), (ascii ''sourceIp'', JStr (ascii ''b''))]"
  by (simp add: csv_object_def defaultHeaders_def enumerate_eq_zip set_property_def ascii_def)

lemma localhost_no_name: "\<not> list_ex is_name_token (split_ws (ascii ''localhost''))"
  by (simp add: is_name_token_def is_js_space_def ascii_def)

lemma free_text_sample_trim: "trim free_text_sample = free_text_sample"
  by (simp add: free_text_sample_def trim_def is_js_space_def ascii_def)

lemma free_text_sample_lines: "content_lines free_text_sample = [free_text_sample]"
  by (simp add: free_text_sample_def content_lines_def trim_def is_js_space_def ascii_def)

lemma free_text_sample_not_csv: "\<not> isCSV free_text_sample"
  by (simp add: free_text_sample_def isCSV_def ascii_def)

lemma free_text_sample_parts: "split_ws free_text_sample = [ascii ''example.com'', ascii ''10.0.0.5'', ascii ''TXT'']"
  by (simp add: free_text_sample_def is_js_space_def ascii_def)

lemma free_text_sample_query: "find_str is_name_token
   [ascii ''example.com'', ascii ''10.0.0.5'', ascii ''TXT''] = JStr (ascii ''example.com'')"
  by (simp add: find_str_def is_name_token_def all_digits_def is_digit_def ascii_def)

lemma example_com_no_ipv4: "\<not> ipv4_match (ascii ''example.com'')"
  by (simp add: ipv4_match_def boundary_before_def boundary_after_def ipv4_rests_def
       take_digits_def take_dot_def is_digit_def is_word_char_def ascii_def Let_def)

lemma dotted_quad_ipv4: "ipv4_match (ascii ''10.0.0.5'')"
  by (simp add: ipv4_match_def boundary_before_def boundary_after_def ipv4_rests_def
       take_digits_def take_dot_def is_digit_def is_word_char_def ascii_def Let_def)

lemma free_text_sample_ip: "find_str ipv4_match [ascii ''example.com'', ascii ''10.0.0.5'', ascii ''TXT''] = JStr (ascii ''10.0.0.5'')"
  by (simp add: find_str_def example_com_no_ipv4 dotted_quad_ipv4)

lemma free_text_sample_type: "find_str (\<lambda>p. toUpperCase sample_runtime p \<in> set typeMnemonics)
    [ascii ''example.com'', ascii ''10.0.0.5'', ascii ''TXT''] = JStr (ascii ''TXT'')"
  by (simp add: find_str_def sample_runtime_def typeMnemonics_def ascii_upper_def ascii_def)

lemma free_text_sample_normalized: "map_sum id (\<lambda>r. (query r, sourceIp r, type_f r))
     (normalizeDNSQuery sample_runtime 0
        (Object [(ascii ''query'', JStr (ascii ''example.com'')),
                 (ascii ''sourceIp'', JStr (ascii ''10.0.0.5'')),
                 (ascii ''type'', JStr (ascii ''TXT'')),
                 (ascii ''timestamp'', JStr (ascii ''example.com''))]))
    = Inr (ascii ''example.com'', ascii ''10.0.0.5'', ascii ''TXT'')"
  by (simp add: normalizeDNSQuery_def Let_def get_prop_def js_or_def ascii_def
        sample_runtime_def ascii_upper_def)

lemma free_text_sample_line: "map_sum id (map (\<lambda>r. (query r, sourceIp r, type_f r))) (free_text_line sample_runtime 0 free_text_sample)
   = Inr [(ascii ''example.com'', ascii ''10.0.0.5'', ascii ''TXT'')]"
proof -
  obtain r where r: "normalizeDNSQuery sample_runtime 0
        (Object [(ascii ''query'', JStr (ascii ''example.com'')),
                 (ascii ''sourceIp'', JStr (ascii ''10.0.0.5'')),
                 (ascii ''type'', JStr (ascii ''TXT'')),
                 (ascii ''timestamp'', JStr (ascii ''example.com''))]) = Inr r"
     and q: "query r = ascii ''example.com''" "sourceIp r = ascii ''10.0.0.5''" "type_f r = ascii ''TXT''"
    using free_text_sample_normalized by (auto simp: map_sum_def split: sum.splits)
  have l: "length (ascii ''example.com'') > 10" by (simp add: ascii_def)
  have ne: "ascii ''example.com'' \<noteq> []" "ascii ''TXT'' \<noteq> []"
    by (simp_all add: ascii_def)
  show ?thesis
    unfolding free_text_line_def free_text_sample_parts Let_def free_text_sample_query free_text_sample_ip free_text_sample_type
    using l ne by (simp add: js_or_def r q)
qed

lemma free_text_sample_parsed: "map_sum id (map (\<lambda>r. (query r, sourceIp r, type_f r))) (parseLogContent sample_runtime free_text_sample)
   = Inr [(ascii ''example.com'', ascii ''10.0.0.5'', ascii ''TXT'')]"
proof -
  have w: "whole_document sample_runtime free_text_sample = None"
    by (simp add: whole_document_def sample_runtime_def)
  have j: "JSON_parse sample_runtime free_text_sample = None"
    by (simp add: sample_runtime_def)
  have ne: "free_text_sample \<noteq> []" by (simp add: free_text_sample_def ascii_def)
  obtain rs where rs: "free_text_line sample_runtime 0 free_text_sample = Inr rs"
    and q: "map (\<lambda>r. (query r, sourceIp r, type_f r)) rs = [(ascii ''example.com'', ascii ''10.0.0.5'', ascii ''TXT'')]"
    using free_text_sample_line by (auto simp: map_sum_def split: sum.splits)
  show ?thesis
    unfolding parseLogContent_def free_text_sample_trim Let_def w free_text_sample_lines
    using free_text_sample_not_csv ne q
    by (simp add: line_by_line_def line_records_def j rs enumerate_eq_zip)
qed


text \<open>
  C4, as stated, fails. The one-line content \<open>x,y,\<close> is not JSON, its line has a comma
  and no tab, so it is read as CSV without a header row; the row has three fields, the
  third (the query column) empty, and the guard \<open>parts.length >= 3\<close> accepts it: the
  parser returns one record, whose query is the empty string. So it does for the JSON
  document \<open>{}\<close>, whose one item is normalised although it names no query.
\<close>

theorem parseLogContent_csv_empty_query:
  "map_sum id (map query) (parseLogContent sample_runtime (ascii ''x,y,'')) = Inr [[]]
   \<and> map_sum id (map query) (parseLogContent braces_runtime (ascii ''{}'')) = Inr [[]]"
  using csv_row_parsed braces_parsed by (rule conjI)

text \<open>
  C4, amended. The records \<open>parseLogContent\<close> returns all have a non-empty query string
  exactly when every value handed to the normaliser on the path taken names a query, that
  is, has a truthy \<open>query\<close>, \<open>domain\<close>, \<open>qname\<close> or \<open>Question\<close> field: the items of a
  whole-document JSON input; else, when the CSV strategy returns records, its data rows of
  at least three fields; else the lines that parse as JSON and are normalised. The
  free-text fallback never adds a record with an empty query: a line with no extractable
  query name produces no record, and one with such a name produces one record, with the
  first such token, which is not empty, as its query. A CSV row of fewer than three fields
  without a query or domain value produces no record; a CSV row of at least three fields
  is always kept, and the record the normaliser returns for a value has the empty query
  exactly when none of the four fields is truthy in it.
\<close>

theorem parseLogContent_query_nonempty:
  "(parseLogContent rt content = Inr rs \<longrightarrow>
      ((\<forall>r \<in> set rs. query r \<noteq> []) \<longleftrightarrow>
       (trim content = [] \<or>
        (case whole_document rt (trim content) of
           Some _ \<Rightarrow>
             \<forall>doc. JSON_parse rt (trim content) = Some doc
               \<longrightarrow> (\<forall>item \<in> set (json_items doc). names_query item)
         | None \<Rightarrow>
             (case content_lines (trim content) of
                [] \<Rightarrow> True
              | firstLine # _ \<Rightarrow>
                  if isCSV firstLine
                     \<and> csv_records rt (content_lines (trim content)) firstLine \<noteq> Inr []
                  then \<forall>line \<in> set (csv_dataLines rt (content_lines (trim content))
                                        firstLine).
                         3 \<le> length (csv_parts line) \<longrightarrow>
                         names_query (Object (csv_object (csv_currentHeaders rt firstLine)
                                                (csv_parts line)))
                  else \<forall>(i, line) \<in> set (enumerate 0 (content_lines (trim content))).
                         \<forall>d r. JSON_parse rt line = Some d
                           \<longrightarrow> normalizeDNSQuery rt i d = Inr r \<longrightarrow> names_query d)))))
   \<and> (\<not> list_ex is_name_token (split_ws line1) \<longrightarrow> free_text_line rt i line1 = Inr [])
   \<and> (list_ex is_name_token (split_ws line2)
        \<longrightarrow> (\<exists>r. free_text_line rt i line2 = Inr [r]
                  \<and> find is_name_token (split_ws line2) = Some (query r)
                  \<and> query r \<noteq> []))
   \<and> (length (csv_parts row1) < 3
        \<and> \<not> truthy (get_prop (Object (csv_object hs (csv_parts row1))) ''query'')
        \<and> \<not> truthy (get_prop (Object (csv_object hs (csv_parts row1))) ''domain'')
        \<longrightarrow> csv_line rt hs n row1 = Inr [])
   \<and> (3 \<le> length (csv_parts row2)
        \<longrightarrow> (\<exists>r. csv_line rt hs n row2 = Inr [r]
                  \<and> (query r = []
                       \<longleftrightarrow> \<not> names_query (Object (csv_object hs (csv_parts row2))))))
   \<and> (normalizeDNSQuery rt i data = Inr r' \<longrightarrow> (query r' = [] \<longleftrightarrow> \<not> names_query data))"
  using parseLogContent_query [of rt content rs] free_text_line_no_name [of line1 rt i]
    free_text_line_name [of line2 rt i] csv_line_drops [of row1 hs rt n]
    csv_line_keeps [of row2 rt hs n] normalizeDNSQuery_names_query [of rt i data r']
  by blast

theorem parseLogContent_query_nonempty_witness:
  "map_sum id (map query) (parseLogContent sample_runtime csv_sample)
     = Inr [ascii ''evil.tunnel.net'']
   \<and> free_text_line sample_runtime 0 (ascii ''localhost'') = Inr []
   \<and> map_sum id (map query) (free_text_line sample_runtime 0 free_text_sample)
       = Inr [ascii ''example.com'']
   \<and> csv_line sample_runtime defaultHeaders 0 (ascii ''a,b'') = Inr []
   \<and> map_sum id (map query) (csv_line sample_runtime defaultHeaders 0 (ascii ''x,y,''))
       = Inr [[]]
   \<and> map_sum id query (normalizeDNSQuery sample_runtime 0 (Object [])) = Inr []"
proof -
  let ?h = "ascii ''query,sourceIp,type''"
  let ?row = "ascii ''evil.tunnel.net,1.2.3.4,TXT''"
  obtain rs where rs: "parseLogContent sample_runtime csv_sample = Inr rs"
    and q: "map query rs = [ascii ''evil.tunnel.net'']"
    using csv_sample_parsed by (auto simp: map_sum_def split: sum.splits)
  obtain r' where r': "normalizeDNSQuery sample_runtime 0 (Object []) = Inr r'"
    using empty_object_normalized [of sample_runtime 0]
    by (auto simp: map_sum_def split: sum.splits)
  note inst = parseLogContent_query_nonempty
    [where rt = sample_runtime and content = csv_sample and rs = rs
       and ?line1.0 = "ascii ''localhost''" and i = 0 and ?line2.0 = free_text_sample
       and ?row1.0 = "ascii ''a,b''" and hs = defaultHeaders and n = 0
       and ?row2.0 = "ascii ''x,y,''" and data = "Object []" and r' = r']
  have recs: "csv_records sample_runtime [?h, ?row] ?h \<noteq> Inr []"
    using csv_sample_records by auto
  have rows: "\<forall>line \<in> set (csv_dataLines sample_runtime [?h, ?row] ?h).
                3 \<le> length (csv_parts line) \<longrightarrow>
                names_query (Object (csv_object (csv_currentHeaders sample_runtime ?h)
                                       (csv_parts line)))"
    using csv_sample_hasHeaders csv_sample_names_query
    by (simp add: csv_dataLines_def csv_currentHeaders_def csv_sample_header_parts
        csv_sample_row_parts csv_sample_object)
  have h1: "trim csv_sample = [] \<or>
        (case whole_document sample_runtime (trim csv_sample) of
           Some _ \<Rightarrow>
             \<forall>doc. JSON_parse sample_runtime (trim csv_sample) = Some doc
               \<longrightarrow> (\<forall>item \<in> set (json_items doc). names_query item)
         | None \<Rightarrow>
             (case content_lines (trim csv_sample) of
                [] \<Rightarrow> True
              | firstLine # _ \<Rightarrow>
                  if isCSV firstLine
                     \<and> csv_records sample_runtime (content_lines (trim csv_sample)) firstLine
                         \<noteq> Inr []
                  then \<forall>line \<in> set (csv_dataLines sample_runtime
                                        (content_lines (trim csv_sample)) firstLine).
                         3 \<le> length (csv_parts line) \<longrightarrow>
                         names_query (Object (csv_object
                                                (csv_currentHeaders sample_runtime firstLine)
                                                (csv_parts line)))
                  else \<forall>(i, line) \<in> set (enumerate 0 (content_lines (trim csv_sample))).
                         \<forall>d r. JSON_parse sample_runtime line = Some d
                           \<longrightarrow> normalizeDNSQuery sample_runtime i d = Inr r
                           \<longrightarrow> names_query d))"
    unfolding csv_sample_trim csv_sample_whole_document csv_sample_lines
    using csv_sample_isCSV recs rows by simp
  have h2: "list_ex is_name_token (split_ws free_text_sample)"
    unfolding free_text_sample_parts
    by (simp add: is_name_token_def all_digits_def is_digit_def ascii_def)
  have f2: "find is_name_token (split_ws free_text_sample) = Some (ascii ''example.com'')"
    unfolding free_text_sample_parts
    by (simp add: is_name_token_def all_digits_def is_digit_def ascii_def)
  have h3: "length (csv_parts (ascii ''a,b'')) < 3
      \<and> \<not> truthy (get_prop (Object (csv_object defaultHeaders (csv_parts (ascii ''a,b''))))
                   ''query'')
      \<and> \<not> truthy (get_prop (Object (csv_object defaultHeaders (csv_parts (ascii ''a,b''))))
                   ''domain'')"
    unfolding csv_short_row_parts csv_short_row_object
    by (simp add: get_prop_def ascii_def)
  have h4: "3 \<le> length (csv_parts (ascii ''x,y,''))" by (simp add: csv_row_parts)
  have n4: "\<not> names_query (Object (csv_object defaultHeaders (csv_parts (ascii ''x,y,''))))"
    unfolding csv_row_parts csv_row_object by (rule csv_row_names_no_query)
  have n5: "\<not> names_query (Object [])" by (simp add: names_query_def get_prop_def)
  from inst rs h1 have "\<forall>r \<in> set rs. query r \<noteq> []" by blast
  moreover from inst localhost_no_name
  have "free_text_line sample_runtime 0 (ascii ''localhost'') = Inr []" by blast
  moreover from inst h2 f2
  have "map_sum id (map query) (free_text_line sample_runtime 0 free_text_sample)
          = Inr [ascii ''example.com'']" by auto
  moreover from inst h3
  have "csv_line sample_runtime defaultHeaders 0 (ascii ''a,b'') = Inr []" by blast
  moreover from inst h4 n4
  have "map_sum id (map query) (csv_line sample_runtime defaultHeaders 0 (ascii ''x,y,''))
          = Inr [[]]" by auto
  moreover from inst r' n5
  have "map_sum id query (normalizeDNSQuery sample_runtime 0 (Object [])) = Inr []" by auto
  ultimately show ?thesis using rs q by simp
qed

end
